(* ===== verification/Prelude.thy ===== *)
theory Prelude
  imports Complex_Main
begin

text \<open>
  Shared vocabulary of the development: the Python exceptions the program can raise,
  Python's insertion-ordered \<open>dict\<close> as an association list, and the collections of
  lemmas that the component theories hand to \<open>simp\<close> and \<open>auto\<close>.
  A Python \<open>dict\<close> keeps its keys in insertion order, and assigning to a key that is
  already present replaces the value in place without moving the key.  The program
  iterates over its dictionaries (\<open>small_talk.items()\<close>, \<open>keywords.items()\<close>,
  \<open>knowledge.keys()\<close>) and the first match wins, so the order is part of the
  behaviour and a plain map \<open>'k \<rightharpoonup> 'v\<close> would lose it.
\<close>

named_theorems dict_simps "equations of the ordered-dictionary model"
named_theorems pystr_simps "equations of the Python string built-ins"

datatype py_exc = IndexError | KeyError | ValueError

type_synonym ('k, 'v) pydict = "('k \<times> 'v) list"

subsection \<open>Ordered dictionaries\<close>

text \<open>\<open>d[k] = v\<close>: replace in place when \<open>k\<close> is present, append otherwise.\<close>

fun dict_set :: "'k \<Rightarrow> 'v \<Rightarrow> ('k, 'v) pydict \<Rightarrow> ('k, 'v) pydict" where
  "dict_set k v [] = [(k, v)]"
| "dict_set k v ((k', v') # d) =
     (if k' = k then (k', v) # d else (k', v') # dict_set k v d)"

text \<open>\<open>d.get(k)\<close>, \<open>d.get(k, default)\<close>, \<open>d[k]\<close> (raising \<open>KeyError\<close>), \<open>d.keys()\<close>.\<close>

definition dict_get :: "('k, 'v) pydict \<Rightarrow> 'k \<Rightarrow> 'v option" where
  "dict_get d k = map_of d k"

definition dict_get_default :: "('k, 'v) pydict \<Rightarrow> 'k \<Rightarrow> 'v \<Rightarrow> 'v" where
  "dict_get_default d k dflt = (case map_of d k of Some v \<Rightarrow> v | None \<Rightarrow> dflt)"

definition dict_getitem :: "('k, 'v) pydict \<Rightarrow> 'k \<Rightarrow> py_exc + 'v" where
  "dict_getitem d k = (case map_of d k of Some v \<Rightarrow> Inr v | None \<Rightarrow> Inl KeyError)"

definition dict_keys :: "('k, 'v) pydict \<Rightarrow> 'k list" where
  "dict_keys d = map fst d"

text \<open>The dictionary invariant: no key occurs twice.\<close>

definition dict_wf :: "('k, 'v) pydict \<Rightarrow> bool" where
  "dict_wf d \<longleftrightarrow> distinct (map fst d)"

text \<open>\<open>xs[i]\<close> for \<open>0 \<le> i\<close>, raising \<open>IndexError\<close> out of range.\<close>

definition py_index :: "'a list \<Rightarrow> nat \<Rightarrow> py_exc + 'a" where
  "py_index xs i = (if i < length xs then Inr (xs ! i) else Inl IndexError)"

text \<open>A run of assignments, as a loader performs them one record at a time.\<close>

fun dict_set_all :: "('k, 'v) pydict \<Rightarrow> ('k \<times> 'v) list \<Rightarrow> ('k, 'v) pydict" where
  "dict_set_all d [] = d"
| "dict_set_all d ((k, v) # kvs) = dict_set_all (dict_set k v d) kvs"

text \<open>\<open>xs[lo:hi]\<close> for \<open>0 \<le> lo\<close>, \<open>0 \<le> hi\<close>.\<close>

definition py_slice :: "'a list \<Rightarrow> nat \<Rightarrow> nat \<Rightarrow> 'a list" where
  "py_slice xs lo hi = take (hi - lo) (drop lo xs)"

subsection \<open>Lemmas on the dictionary model\<close>

lemma map_fst_dict_set [dict_simps]:
  "map fst (dict_set k v d) = (if k \<in> set (map fst d) then map fst d else map fst d @ [k])"
proof (induction d)
  case (Cons p d)
  then show ?case by (cases p) auto
qed simp

lemma set_dict_keys_dict_set [dict_simps]:
  "set (dict_keys (dict_set k v d)) = insert k (set (dict_keys d))"
  by (auto simp: dict_keys_def map_fst_dict_set)

lemma dict_wf_Nil [simp, dict_simps]: "dict_wf []"
  by (simp add: dict_wf_def)

lemma dict_wf_dict_set [dict_simps]: "dict_wf d \<Longrightarrow> dict_wf (dict_set k v d)"
  by (simp add: dict_wf_def map_fst_dict_set)

lemma map_of_dict_set [dict_simps]: "map_of (dict_set k v d) = (map_of d)(k \<mapsto> v)"
  by (induction d) (auto simp: fun_eq_iff)

lemma dict_get_dict_set [dict_simps]:
  "dict_get (dict_set k v d) k' = (if k' = k then Some v else dict_get d k')"
  by (simp add: dict_get_def map_of_dict_set)

lemma length_dict_set:
  "length (dict_set k v d) = (if k \<in> set (dict_keys d) then length d else Suc (length d))"
  using arg_cong [OF map_fst_dict_set [of k v d], of length] by (simp add: dict_keys_def)

lemma dict_get_Some_key [dict_simps]: "dict_get d k = Some v \<Longrightarrow> k \<in> set (dict_keys d)"
  by (auto simp: dict_get_def dict_keys_def dest: map_of_SomeD intro: rev_image_eqI)

lemma dict_get_key_Some [dict_simps]: "k \<in> set (dict_keys d) \<Longrightarrow> \<exists>v. dict_get d k = Some v"
  by (auto simp: dict_get_def dict_keys_def dom_map_of_conv_image_fst [symmetric])

lemma dict_getitem_key [dict_simps]:
  "k \<in> set (dict_keys d) \<Longrightarrow> dict_getitem d k = Inr (the (dict_get d k))"
  using dict_get_key_Some [of k d] by (auto simp: dict_getitem_def dict_get_def)

lemma dict_get_default_Some [dict_simps]:
  "dict_get d k = Some v \<Longrightarrow> dict_get_default d k dflt = v"
  by (simp add: dict_get_default_def dict_get_def)

lemma dict_get_default_None [dict_simps]:
  "dict_get d k = None \<Longrightarrow> dict_get_default d k dflt = dflt"
  by (simp add: dict_get_default_def dict_get_def)

lemma set_dict_set_subset [dict_simps]: "set (dict_set k v d) \<subseteq> insert (k, v) (set d)"
proof (induction d)
  case (Cons p d)
  then show ?case by (cases p) auto
qed simp

lemma dict_set_entries [dict_simps]:
  "\<forall>(k, v) \<in> set d. P k v \<Longrightarrow> P k v \<Longrightarrow> \<forall>(k', v') \<in> set (dict_set k v d). P k' v'"
  using set_dict_set_subset [of k v d] by blast

lemma dict_wf_dict_set_all [dict_simps]: "dict_wf d \<Longrightarrow> dict_wf (dict_set_all d kvs)"
  by (induction d kvs rule: dict_set_all.induct) (auto simp: dict_wf_dict_set)

lemma dict_keys_dict_set_all [dict_simps]:
  "set (dict_keys (dict_set_all d kvs)) = set (dict_keys d) \<union> fst ` set kvs"
  by (induction d kvs rule: dict_set_all.induct) (auto simp: set_dict_keys_dict_set)

lemma map_of_dict_set_all [dict_simps]:
  "map_of (dict_set_all d kvs) = map_of d ++ map_of (rev kvs)"
  by (induction d kvs rule: dict_set_all.induct) (auto simp: map_of_dict_set map_add_def fun_eq_iff split: option.splits)

lemma dict_set_fresh: "k \<notin> set (map fst d) \<Longrightarrow> dict_set k v d = d @ [(k, v)]"
  by (induction d) auto

lemma dict_set_all_fresh: "distinct (map fst (d @ kvs)) \<Longrightarrow> dict_set_all d kvs = d @ kvs"
  by (induction d kvs rule: dict_set_all.induct) (auto simp: dict_set_fresh)

subsection \<open>Slices\<close>

lemma py_slice_split:
  "lo \<le> mid \<Longrightarrow> mid \<le> hi \<Longrightarrow> py_slice xs lo hi = py_slice xs lo mid @ py_slice xs mid hi"
proof -
  assume "lo \<le> mid" "mid \<le> hi"
  then have h: "hi - lo = (mid - lo) + (hi - mid)" and m: "mid - lo + lo = mid" by arith+
  have "take (hi - lo) (drop lo xs) =
      take (mid - lo) (drop lo xs) @ take (hi - mid) (drop (mid - lo) (drop lo xs))"
    unfolding h by (rule take_add)
  also have "drop (mid - lo) (drop lo xs) = drop mid xs" by (simp add: m)
  finally show ?thesis by (simp add: py_slice_def)
qed

lemma py_slice_all [simp]: "py_slice xs 0 (length xs) = xs"
  by (simp add: py_slice_def)

end
