(* ===== verification/PyStr.thy ===== *)
theory PyStr
  imports Prelude "HOL-Library.Sublist"
begin

text \<open>
  The Python string operations the program calls, as executable functions on
  \<open>string\<close>.  A Python \<open>str\<close> is a sequence of code points; the model's \<open>char\<close>
  is Isabelle's 8-bit character, so the model covers text whose code points are below
  256 (ASCII and Latin-1), and the case and whitespace tables below are Python's tables
  restricted to that range.  \<open>str.split\<close>, \<open>str.join\<close> and the substring test are
  written generically over lists, since they never look at the characters themselves.
\<close>

subsection \<open>Character classes\<close>

text \<open>\<open>str.isspace\<close> on code points below 256: \<open>\t \n \v \f \r\<close>, the
  separators \<open>\x1c\<close>--\<open>\x1f\<close>, space, NEL (\<open>\x85\<close>) and NBSP (\<open>\xa0\<close>).\<close>

definition py_isspace :: "char \<Rightarrow> bool" where
  "py_isspace c = (let n = (of_char c :: nat) in
     (9 \<le> n \<and> n \<le> 13) \<or> (28 \<le> n \<and> n \<le> 32) \<or> n = 133 \<or> n = 160)"

text \<open>\<open>str.lower\<close> on one code point below 256: \<open>A\<close>--\<open>Z\<close> and the Latin-1
  capitals \<open>\xc0\<close>--\<open>\xde\<close> except the multiplication sign \<open>\xd7\<close> move up by 32.\<close>

definition py_is_upper :: "char \<Rightarrow> bool" where
  "py_is_upper c = (let n = (of_char c :: nat) in
     (65 \<le> n \<and> n \<le> 90) \<or> (192 \<le> n \<and> n \<le> 222 \<and> n \<noteq> 215))"

definition py_lower_char :: "char \<Rightarrow> char" where
  "py_lower_char c = (if py_is_upper c then char_of (of_char c + (32::nat)) else c)"

definition py_lower :: "string \<Rightarrow> string" where
  "py_lower s = map py_lower_char s"

subsection \<open>\<open>strip\<close>\<close>

definition py_lstrip :: "string \<Rightarrow> string" where
  "py_lstrip s = dropWhile py_isspace s"

definition py_rstrip :: "string \<Rightarrow> string" where
  "py_rstrip s = rev (dropWhile py_isspace (rev s))"

definition py_strip :: "string \<Rightarrow> string" where
  "py_strip s = py_rstrip (py_lstrip s)"

subsection \<open>Substrings: \<open>startswith\<close> and \<open>in\<close>\<close>

fun starts_with :: "'a list \<Rightarrow> 'a list \<Rightarrow> bool" where
  "starts_with [] s = True"
| "starts_with (c # cs) [] = False"
| "starts_with (c # cs) (d # ds) = (c = d \<and> starts_with cs ds)"

text \<open>\<open>needle in hay\<close>: the needle occurs at some position of the hay; the empty
  needle occurs in every string.\<close>

fun py_contains :: "'a list \<Rightarrow> 'a list \<Rightarrow> bool" where
  "py_contains n [] = (n = [])"
| "py_contains n (c # cs) = (starts_with n (c # cs) \<or> py_contains n cs)"

subsection \<open>\<open>split\<close>, \<open>join\<close>, \<open>replace\<close>\<close>

text \<open>\<open>s.split(sep)\<close> for a non-empty separator: scan left to right, cut at every
  non-overlapping occurrence.  \<open>acc\<close> is the piece being built.  (Python raises
  \<open>ValueError\<close> on an empty separator; the program only splits on the literals
  \<open>"\n\n"\<close>, \<open>"\n"\<close>, \<open>","\<close> and \<open>":"\<close>, and the model does not cut on an empty one.)\<close>

function py_split_go :: "'a list \<Rightarrow> 'a list \<Rightarrow> 'a list \<Rightarrow> 'a list list" where
  "py_split_go sep acc [] = [acc]"
| "py_split_go sep acc (c # cs) =
     (if sep \<noteq> [] \<and> starts_with sep (c # cs)
      then acc # py_split_go sep [] (drop (length sep) (c # cs))
      else py_split_go sep (acc @ [c]) cs)"
  by pat_completeness auto
termination
  by (relation "measure (\<lambda>(sep, acc, s). length s)") auto

definition py_split :: "'a list \<Rightarrow> 'a list \<Rightarrow> 'a list list" where
  "py_split sep s = py_split_go sep [] s"

text \<open>\<open>s.split(sep, 1)\<close>: cut at the first occurrence only.\<close>

fun py_split_once_go :: "'a list \<Rightarrow> 'a list \<Rightarrow> 'a list \<Rightarrow> 'a list list" where
  "py_split_once_go sep acc [] = [acc]"
| "py_split_once_go sep acc (c # cs) =
     (if sep \<noteq> [] \<and> starts_with sep (c # cs)
      then [acc, drop (length sep) (c # cs)]
      else py_split_once_go sep (acc @ [c]) cs)"

definition py_split_once :: "'a list \<Rightarrow> 'a list \<Rightarrow> 'a list list" where
  "py_split_once sep s = py_split_once_go sep [] s"

text \<open>\<open>sep.join(xs)\<close>.\<close>

fun py_join :: "'a list \<Rightarrow> 'a list list \<Rightarrow> 'a list" where
  "py_join sep [] = []"
| "py_join sep [x] = x"
| "py_join sep (x # y # xs) = x @ sep @ py_join sep (y # xs)"

text \<open>\<open>s.replace(old, new)\<close> for a non-empty \<open>old\<close> is \<open>new.join(s.split(old))\<close>:
  both replace the non-overlapping occurrences found left to right.\<close>

definition py_replace :: "'a list \<Rightarrow> 'a list \<Rightarrow> 'a list \<Rightarrow> 'a list" where
  "py_replace old new s = py_join new (py_split old s)"

subsection \<open>Iterating over a text file\<close>

text \<open>\<open>for line in f\<close> on a file opened in text mode yields the lines with their
  terminating newline, the last one without it when the file does not end in a newline.
  The argument is the file's content after Python's universal-newline translation
  (\<open>\r\n\<close> and \<open>\r\<close> already read as \<open>\n\<close>).\<close>

fun py_lines_go :: "string \<Rightarrow> string \<Rightarrow> string list" where
  "py_lines_go acc [] = (if acc = [] then [] else [acc])"
| "py_lines_go acc (c # cs) =
     (if c = CHR ''\<newline>'' then (acc @ [c]) # py_lines_go [] cs
      else py_lines_go (acc @ [c]) cs)"

definition py_file_lines :: "string \<Rightarrow> string list" where
  "py_file_lines s = py_lines_go [] s"

subsection \<open>Lemmas on the string built-ins\<close>

lemma starts_with_prefix [pystr_simps]: "starts_with n s \<longleftrightarrow> prefix n s"
  by (induction n s rule: starts_with.induct) auto

lemma py_contains_sublist [pystr_simps]: "py_contains n h \<longleftrightarrow> sublist n h"
  by (induction n h rule: py_contains.induct) (auto simp: starts_with_prefix sublist_Cons_right)

lemma py_contains_Nil [simp]: "py_contains [] h"
  by (simp add: py_contains_sublist)

lemma py_contains_set: "py_contains n h \<Longrightarrow> set n \<subseteq> set h"
  by (simp add: py_contains_sublist set_mono_sublist)

lemma py_contains_single [pystr_simps]: "py_contains [c] s \<longleftrightarrow> c \<in> set s"
  by (induction s) auto

lemma py_join_Cons [pystr_simps]:
  "py_join sep (x # xs) = (if xs = [] then x else x @ sep @ py_join sep xs)"
  by (cases xs) auto

lemma starts_with_append: "starts_with sep s \<Longrightarrow> s = sep @ drop (length sep) s"
  by (induction sep s rule: starts_with.induct) auto

lemma py_split_go_nonempty [simp]: "py_split_go sep acc s \<noteq> []"
  by (induction sep acc s rule: py_split_go.induct) auto

lemma py_join_split_go:
  "sep \<noteq> [] \<Longrightarrow> py_join sep (py_split_go sep acc s) = acc @ s"
proof (induction sep acc s rule: py_split_go.induct)
  case (2 sep acc c cs)
  show ?case
  proof (cases "starts_with sep (c # cs)")
    case True
    then have "c # cs = sep @ drop (length sep) (c # cs)" by (rule starts_with_append)
    with True "2.IH"(1) "2.prems" show ?thesis
      by (simp add: py_join_Cons del: drop_Cons)
  next
    case False
    with "2.IH"(2) "2.prems" show ?thesis by simp
  qed
qed simp

lemma py_split_nonempty [simp]: "py_split sep s \<noteq> []"
  by (simp add: py_split_def)

lemma py_join_split [pystr_simps]: "sep \<noteq> [] \<Longrightarrow> py_join sep (py_split sep s) = s"
  by (simp add: py_split_def py_join_split_go)

lemma py_replace_char_Nil_go:
  "py_join [] (py_split_go [c] acc s) = acc @ filter (\<lambda>x. x \<noteq> c) s"
  by (induction "[c]" acc s rule: py_split_go.induct) (auto simp: py_join_Cons)

lemma py_replace_char_Nil [pystr_simps]:
  "py_replace [c] [] s = filter (\<lambda>x. x \<noteq> c) s"
  by (simp add: py_replace_def py_split_def py_replace_char_Nil_go)

lemma py_split_once_go_absent:
  "\<not> py_contains sep s \<Longrightarrow> py_split_once_go sep acc s = [acc @ s]"
  by (induction sep acc s rule: py_split_once_go.induct) auto

lemma py_split_once_go_char:
  "c \<in> set s \<Longrightarrow>
     \<exists>a b. py_split_once_go [c] acc s = [acc @ a, b] \<and> s = a @ c # b \<and> c \<notin> set a"
proof (induction s arbitrary: acc)
  case (Cons d s)
  show ?case
  proof (cases "d = c")
    case False
    with Cons.prems obtain a b where "py_split_once_go [c] (acc @ [d]) s = [acc @ [d] @ a, b]"
      and "s = a @ c # b" and "c \<notin> set a"
      using Cons.IH [of "acc @ [d]"] by auto
    with False show ?thesis by (intro exI [of _ "d # a"] exI [of _ b]) simp
  qed simp
qed simp

lemma py_split_once_char [pystr_simps]:
  "c \<in> set s \<Longrightarrow> \<exists>a b. py_split_once [c] s = [a, b] \<and> s = a @ c # b \<and> c \<notin> set a"
  using py_split_once_go_char [of c s "[]"] by (simp add: py_split_once_def)

lemma py_lines_go_concat: "concat (py_lines_go acc s) = acc @ s"
  by (induction acc s rule: py_lines_go.induct) auto

lemma py_is_upper_less: "py_is_upper c \<Longrightarrow> (of_char c :: nat) + 32 < 256"
  by (auto simp: py_is_upper_def Let_def)

lemma of_char_py_lower_char:
  "(of_char (py_lower_char c) :: nat) = (if py_is_upper c then of_char c + 32 else of_char c)"
  using py_is_upper_less [of c] by (simp add: py_lower_char_def)

lemma py_lower_char_not_upper [pystr_simps]: "\<not> py_is_upper (py_lower_char c)"
  by (auto simp: py_is_upper_def Let_def of_char_py_lower_char split: if_splits)

lemma py_lower_char_idem [pystr_simps]: "py_lower_char (py_lower_char c) = py_lower_char c"
  using py_lower_char_not_upper [of c] by (simp add: py_lower_char_def [of "py_lower_char c"])

lemma py_isspace_py_lower_char [pystr_simps]: "py_isspace (py_lower_char c) = py_isspace c"
  by (auto simp: py_isspace_def py_is_upper_def Let_def of_char_py_lower_char)

lemma py_lower_idem [pystr_simps]: "py_lower (py_lower s) = py_lower s"
  by (simp add: py_lower_def py_lower_char_idem)

lemma dropWhile_map_pres:
  "(\<And>x. P (f x) = P x) \<Longrightarrow> dropWhile P (map f s) = map f (dropWhile P s)"
  by (induction s) auto

lemma py_strip_py_lower [pystr_simps]: "py_strip (py_lower s) = py_lower (py_strip s)"
  by (simp add: py_strip_def py_lstrip_def py_rstrip_def py_lower_def rev_map
      dropWhile_map_pres py_isspace_py_lower_char)

lemma set_dropWhile_nonP: "\<not> P c \<Longrightarrow> c \<in> set (dropWhile P s) \<longleftrightarrow> c \<in> set s"
  by (induction s) auto

lemma py_strip_mem [pystr_simps]: "\<not> py_isspace c \<Longrightarrow> c \<in> set (py_strip s) \<longleftrightarrow> c \<in> set s"
  by (simp add: py_strip_def py_lstrip_def py_rstrip_def set_dropWhile_nonP)

lemma py_strip_subset: "set (py_strip s) \<subseteq> set s"
  by (auto simp: py_strip_def py_lstrip_def py_rstrip_def dest!: set_dropWhileD)

lemma dropWhile_rstrip:
  assumes "xs = [] \<or> \<not> P (hd xs)"
  shows "dropWhile P (rev (dropWhile P (rev xs))) = rev (dropWhile P (rev xs))"
proof (cases "rev (dropWhile P (rev xs)) = []")
  case False
  have d: "xs = rev (dropWhile P (rev xs)) @ rev (takeWhile P (rev xs))"
    by (metis rev_append rev_rev_ident takeWhile_dropWhile_id)
  with False have "hd (rev (dropWhile P (rev xs))) = hd xs"
    by (metis hd_append2)
  with False assms d show ?thesis
    by (metis Nil_is_append_conv dropWhile_eq_self_iff)
next
  case True
  then show ?thesis by (metis dropWhile.simps(1))
qed

lemma dropWhile_rev_dropWhile:
  "dropWhile P (rev (dropWhile P (rev (dropWhile P s)))) = rev (dropWhile P (rev (dropWhile P s)))"
  by (rule dropWhile_rstrip) (metis hd_dropWhile)

lemma py_strip_idem [pystr_simps]: "py_strip (py_strip s) = py_strip s"
  by (simp add: py_strip_def py_lstrip_def py_rstrip_def dropWhile_rev_dropWhile)

lemma colon_not_space [simp]: "\<not> py_isspace CHR '':''"
  by (simp add: py_isspace_def)

lemma py_lower_char_colon [simp]: "py_lower_char CHR '':'' = CHR '':''"
  by (simp add: py_lower_char_def py_is_upper_def)
lemma colon_not_upper [simp]: "\<not> py_is_upper CHR '':''"
  by (simp add: py_is_upper_def)
lemma colon_py_lower_char: "py_lower_char c = CHR '':'' \<longleftrightarrow> c = CHR '':''"
proof (cases "py_is_upper c")
  case True
  then have "(of_char (py_lower_char c) :: nat) \<noteq> of_char CHR '':''"
    by (auto simp: of_char_py_lower_char py_is_upper_def Let_def)
  then have "py_lower_char c \<noteq> CHR '':''" by metis
  moreover from True have "c \<noteq> CHR '':''" by auto
  ultimately show ?thesis by blast
next
  case False
  then show ?thesis by (simp add: py_lower_char_def)
qed
lemma colon_py_lower [pystr_simps]: "CHR '':'' \<in> set (py_lower s) \<longleftrightarrow> CHR '':'' \<in> set s"
proof -
  have "CHR '':'' \<in> py_lower_char ` set s \<longleftrightarrow> CHR '':'' \<in> set s"
    using colon_py_lower_char by (metis image_iff py_lower_char_colon)
  then show ?thesis by (simp add: py_lower_def)
qed
lemma py_split_go_char_free:
  "c \<notin> set acc \<Longrightarrow> x \<in> set (py_split_go [c] acc s) \<Longrightarrow> c \<notin> set x"
  by (induction "[c]" acc s rule: py_split_go.induct) (auto split: if_splits)

lemma py_split_char_free: "x \<in> set (py_split [c] s) \<Longrightarrow> c \<notin> set x"
  using py_split_go_char_free [of c "[]" x s] by (simp add: py_split_def)

lemma py_index_py_split_0: "py_index (py_split sep s) 0 = Inr (hd (py_split sep s))"
  by (simp add: py_index_def hd_conv_nth)


subsection \<open>Stripping, splitting and joining known shapes\<close>

lemma newline_space [simp]: "py_isspace CHR ''\<newline>''" and blank_space [simp]: "py_isspace CHR '' ''"
  by (simp_all add: py_isspace_def)

lemma py_strip_Nil [simp]: "py_strip [] = []"
  by (simp add: py_strip_def py_lstrip_def py_rstrip_def)

lemma py_lstrip_id: "s = [] \<or> \<not> py_isspace (hd s) \<Longrightarrow> py_lstrip s = s"
  by (cases s) (auto simp: py_lstrip_def)

lemma py_rstrip_id: "s = [] \<or> \<not> py_isspace (last s) \<Longrightarrow> py_rstrip s = s"
  by (cases s rule: rev_cases) (auto simp: py_rstrip_def)

lemma py_rstrip_append_space: "\<forall>c \<in> set w. py_isspace c \<Longrightarrow> py_rstrip (s @ w) = py_rstrip s"
  by (simp add: py_rstrip_def dropWhile_append)

lemma py_strip_Cons_space: "py_isspace c \<Longrightarrow> py_strip (c # s) = py_strip s"
  by (simp add: py_strip_def py_lstrip_def)

lemma dropWhile_same_length: "length (dropWhile P xs) = length xs \<Longrightarrow> dropWhile P xs = xs"
proof (induction xs)
  case (Cons x xs)
  then show ?case using length_dropWhile_le [of P xs] by (auto split: if_splits)
qed simp

lemma stripped_ends:
  assumes "py_strip s = s"
  shows "s = [] \<or> (\<not> py_isspace (hd s) \<and> \<not> py_isspace (last s))"
proof -
  have l1: "length (py_lstrip s) \<le> length s" by (simp add: py_lstrip_def length_dropWhile_le)
  have l2: "length (py_rstrip (py_lstrip s)) \<le> length (py_lstrip s)"
    using length_dropWhile_le [of py_isspace "rev (py_lstrip s)"] by (simp add: py_rstrip_def)
  from assms have l: "length (py_rstrip (py_lstrip s)) = length s" by (simp add: py_strip_def)
  with l1 l2 have "length (dropWhile py_isspace s) = length s" by (simp add: py_lstrip_def)
  then have ls: "py_lstrip s = s" by (simp add: py_lstrip_def dropWhile_same_length)
  with l have "length (dropWhile py_isspace (rev s)) = length (rev s)" by (simp add: py_rstrip_def)
  then have rs: "dropWhile py_isspace (rev s) = rev s" by (rule dropWhile_same_length)
  from ls rs show ?thesis
    by (auto simp: py_lstrip_def dropWhile_eq_self_iff hd_rev)
qed

lemma py_split_once_go_at: "c \<notin> set a \<Longrightarrow> py_split_once_go [c] acc (a @ c # b) = [acc @ a, b]"
  by (induction a arbitrary: acc) auto

lemma py_split_once_at: "c \<notin> set a \<Longrightarrow> py_split_once [c] (a @ c # b) = [a, b]"
  using py_split_once_go_at [of c a "[]" b] by (simp add: py_split_once_def)

lemma py_split_go_at: "c \<notin> set a \<Longrightarrow> py_split_go [c] acc (a @ c # b) = (acc @ a) # py_split_go [c] [] b"
  by (induction a arbitrary: acc) auto

lemma py_split_go_free: "c \<notin> set a \<Longrightarrow> py_split_go [c] acc a = [acc @ a]"
  by (induction a arbitrary: acc) auto

lemma py_split_join:
  "ps \<noteq> [] \<Longrightarrow> \<forall>p \<in> set ps. c \<notin> set p \<Longrightarrow> py_split [c] (py_join [c] ps) = ps"
proof (induction ps)
  case (Cons p ps)
  then show ?case
    by (cases ps) (auto simp: py_split_def py_split_go_at py_split_go_free)
qed simp

lemma py_lines_go_at:
  "CHR ''\<newline>'' \<notin> set l \<Longrightarrow>
   py_lines_go acc (l @ CHR ''\<newline>'' # rest) = (acc @ l @ [CHR ''\<newline>'']) # py_lines_go [] rest"
  by (induction l arbitrary: acc) auto

lemma py_file_lines_concat:
  "\<forall>l \<in> set ls. CHR ''\<newline>'' \<notin> set l \<Longrightarrow>
   py_file_lines (concat (map (\<lambda>l. l @ ''\<newline>'') ls)) = map (\<lambda>l. l @ ''\<newline>'') ls"
proof (induction ls)
  case (Cons l ls)
  then show ?case using py_lines_go_at [of l "[]"] by (simp add: py_file_lines_def)
qed (simp add: py_file_lines_def)

lemma py_join_nonempty: "ps \<noteq> [] \<Longrightarrow> last ps \<noteq> [] \<Longrightarrow> py_join sep ps \<noteq> []"
  by (induction sep ps rule: py_join.induct) auto

lemma last_py_join: "ps \<noteq> [] \<Longrightarrow> last ps \<noteq> [] \<Longrightarrow> last (py_join sep ps) = last (last ps)"
  by (induction sep ps rule: py_join.induct) (auto simp: last_append py_join_nonempty)

lemma set_py_join: "set (py_join sep ps) \<subseteq> set sep \<union> \<Union> (set ` set ps)"
  by (induction sep ps rule: py_join.induct) auto

end
