(* ===== verification/Knowledge.thy ===== *)
theory Knowledge
  imports PyStr
begin

text \<open>
  The knowledge store of \<open>src/offline_agent.py\<close>, sections 1--3 of the script
  (lines 12--41): the three module-level dictionaries \<open>knowledge\<close>, \<open>keywords\<close> and
  \<open>small_talk\<close>, built once at start-up from the text of \<open>data/first_aid.txt\<close>,
  \<open>data/keywords.txt\<close> and \<open>data/small_talk.txt\<close>.  Each loader is a function from
  the file's content to the dictionary it builds, or to the Python exception it would
  raise; reading the files themselves is not modelled.
\<close>

text \<open>The three dictionaries; \<open>keywords\<close> is a keyword of Isabelle's syntax, so the
  fields carry the prefix \<open>kb_\<close>.\<close>

record kb =
  kb_knowledge :: "(string, string) pydict"
  kb_keywords :: "(string, string list) pydict"
  kb_small_talk :: "(string, string) pydict"

subsection \<open>Loading \<open>first_aid.txt\<close>\<close>

text \<open>One section: \<open>lines = section.strip().split("\n")\<close>, the title is
  \<open>lines[0].replace(":", "").strip().lower()\<close>, the content
  \<open>"\n".join(lines[1:]).strip()\<close>.\<close>

definition parse_section :: "string \<Rightarrow> py_exc + (string \<times> string)" where
  "parse_section section =
     (let lines = py_split ''\<newline>'' (py_strip section) in
      case py_index lines 0 of
        Inl e \<Rightarrow> Inl e
      | Inr l0 \<Rightarrow> Inr (py_lower (py_strip (py_replace '':'' [] l0)),
                     py_strip (py_join ''\<newline>'' (drop 1 lines))))"

fun load_knowledge_loop ::
  "(string, string) pydict \<Rightarrow> string list \<Rightarrow> py_exc + (string, string) pydict" where
  "load_knowledge_loop d [] = Inr d"
| "load_knowledge_loop d (section # sections) =
     (case parse_section section of
        Inl e \<Rightarrow> Inl e
      | Inr (topic, content) \<Rightarrow> load_knowledge_loop (dict_set topic content d) sections)"

definition load_knowledge :: "string \<Rightarrow> py_exc + (string, string) pydict" where
  "load_knowledge knowledge_data =
     load_knowledge_loop [] (py_split ''\<newline>\<newline>'' (py_strip knowledge_data))"

subsection \<open>Loading \<open>keywords.txt\<close> and \<open>small_talk.txt\<close>\<close>

text \<open>Both files are read line by line; a line without \<open>":"\<close> is skipped, any other is
  cut at its first \<open>":"\<close> after \<open>line.strip()\<close> and unpacked into two names, which
  raises \<open>ValueError\<close> unless the cut gives exactly two parts.  A parsed line yields
  \<open>Some\<close> entry, a skipped one \<open>None\<close>.\<close>

definition parse_keyword_line :: "string \<Rightarrow> py_exc + (string \<times> string list) option" where
  "parse_keyword_line line =
     (if py_contains '':'' line then
        (case py_split_once '':'' (py_strip line) of
           [topic, key_str] \<Rightarrow> Inr (Some (py_strip topic, map py_strip (py_split '','' key_str)))
         | _ \<Rightarrow> Inl ValueError)
      else Inr None)"

definition parse_small_talk_line :: "string \<Rightarrow> py_exc + (string \<times> string) option" where
  "parse_small_talk_line line =
     (if py_contains '':'' line then
        (case py_split_once '':'' (py_strip line) of
           [topic, response] \<Rightarrow> Inr (Some (py_lower (py_strip topic), py_strip response))
         | _ \<Rightarrow> Inl ValueError)
      else Inr None)"

text \<open>The \<open>for line in f\<close> loop both loaders share: parse, then assign into the
  dictionary.\<close>

fun load_lines_loop ::
  "(string \<Rightarrow> py_exc + ('k \<times> 'v) option) \<Rightarrow> ('k, 'v) pydict \<Rightarrow> string list \<Rightarrow> py_exc + ('k, 'v) pydict" where
  "load_lines_loop parse d [] = Inr d"
| "load_lines_loop parse d (line # lines) =
     (case parse line of
        Inl e \<Rightarrow> Inl e
      | Inr None \<Rightarrow> load_lines_loop parse d lines
      | Inr (Some (k, v)) \<Rightarrow> load_lines_loop parse (dict_set k v d) lines)"

definition load_keywords :: "string \<Rightarrow> py_exc + (string, string list) pydict" where
  "load_keywords keywords_data = load_lines_loop parse_keyword_line [] (py_file_lines keywords_data)"

definition load_small_talk :: "string \<Rightarrow> py_exc + (string, string) pydict" where
  "load_small_talk small_talk_data = load_lines_loop parse_small_talk_line [] (py_file_lines small_talk_data)"

text \<open>Start-up: the three loaders in the script's order; the first exception aborts.\<close>

definition load_kb :: "string \<Rightarrow> string \<Rightarrow> string \<Rightarrow> py_exc + kb" where
  "load_kb knowledge_data keywords_data small_talk_data =
     (case load_knowledge knowledge_data of
        Inl e \<Rightarrow> Inl e
      | Inr kn \<Rightarrow>
          (case load_keywords keywords_data of
             Inl e \<Rightarrow> Inl e
           | Inr kw \<Rightarrow>
               (case load_small_talk small_talk_data of
                  Inl e \<Rightarrow> Inl e
                | Inr st \<Rightarrow> Inr \<lparr>kb_knowledge = kn, kb_keywords = kw, kb_small_talk = st\<rparr>)))"

subsection \<open>Well-formedness of the loaded store\<close>

text \<open>What the loaders guarantee of every entry: knowledge titles and small-talk triggers
  are lower-cased, stripped and free of \<open>":"\<close>; keyword topics are stripped and free of
  \<open>":"\<close> but keep their case; keywords are stripped and free of \<open>","\<close>; contents and
  responses are stripped.\<close>

definition topic_key :: "string \<Rightarrow> bool" where
  "topic_key t \<longleftrightarrow> py_lower t = t \<and> py_strip t = t \<and> CHR '':'' \<notin> set t"

definition knowledge_entry_wf :: "string \<Rightarrow> string \<Rightarrow> bool" where
  "knowledge_entry_wf t c \<longleftrightarrow> topic_key t \<and> py_strip c = c"

definition keyword_entry_wf :: "string \<Rightarrow> string list \<Rightarrow> bool" where
  "keyword_entry_wf t ks \<longleftrightarrow> py_strip t = t \<and> CHR '':'' \<notin> set t \<and>
     (\<forall>key \<in> set ks. py_strip key = key \<and> CHR '','' \<notin> set key)"

definition small_talk_entry_wf :: "string \<Rightarrow> string \<Rightarrow> bool" where
  "small_talk_entry_wf t r \<longleftrightarrow> topic_key t \<and> py_strip r = r"

definition kb_wf :: "kb \<Rightarrow> bool" where
  "kb_wf k \<longleftrightarrow>
     dict_wf (kb_knowledge k) \<and> dict_wf (kb_keywords k) \<and> dict_wf (kb_small_talk k) \<and>
     (\<forall>(t, c) \<in> set (kb_knowledge k). knowledge_entry_wf t c) \<and>
     (\<forall>(t, ks) \<in> set (kb_keywords k). keyword_entry_wf t ks) \<and>
     (\<forall>(t, r) \<in> set (kb_small_talk k). small_talk_entry_wf t r)"

subsection \<open>The loaders never raise\<close>

lemma load_lines_loop_map:
  "\<forall>x \<in> set xs. parse (f x) = Inr (Some x) \<Longrightarrow>
   load_lines_loop parse d (map f xs) = Inr (dict_set_all d xs)"
  by (induction xs arbitrary: d) auto

lemma parse_section_Inr: "\<exists>t c. parse_section s = Inr (t, c)"
  by (simp add: parse_section_def py_index_def Let_def)

lemma load_knowledge_loop_Inr: "\<exists>d'. load_knowledge_loop d ss = Inr d'"
proof (induction ss arbitrary: d)
  case (Cons s ss)
  obtain t c where "parse_section s = Inr (t, c)" using parse_section_Inr by blast
  with Cons.IH show ?case by simp
qed simp

lemma split_once_colon_line:
  "py_contains '':'' line \<Longrightarrow> \<exists>a b. py_split_once '':'' (py_strip line) = [a, b] \<and> CHR '':'' \<notin> set a"
  using py_split_once_char [of "CHR '':''" "py_strip line"] by (auto simp: py_contains_single py_strip_mem)

lemma parse_keyword_line_Inr: "\<exists>r. parse_keyword_line line = Inr r"
  by (auto simp: parse_keyword_line_def dest: split_once_colon_line)

lemma parse_small_talk_line_Inr: "\<exists>r. parse_small_talk_line line = Inr r"
  by (auto simp: parse_small_talk_line_def dest: split_once_colon_line)

lemma load_lines_loop_Inr:
  assumes "\<And>l. \<exists>r. parse l = Inr r"
  shows "\<exists>d'. load_lines_loop parse d ls = Inr d'"
proof (induction ls arbitrary: d)
  case (Cons l ls)
  from assms obtain r where r: "parse l = Inr r" by blast
  show ?case using Cons.IH by (cases r) (auto simp: r)
qed simp

text \<open>C9: Start-up never raises.  Whatever the three data files contain, the loaders of
  lines 12--41 return the three dictionaries: \<open>lines[0]\<close> always exists because
  \<open>split\<close> never returns an empty list, and the unpacking
  \<open>topic, key_str = line.strip().split(":", 1)\<close> always gets two parts because the line
  was checked to contain \<open>":"\<close>, which \<open>strip\<close> never removes.\<close>

theorem load_kb_total: "\<exists>k. load_kb knowledge_data keywords_data small_talk_data = Inr k"
proof -
  obtain kn where "load_knowledge knowledge_data = Inr kn"
    using load_knowledge_loop_Inr by (auto simp: load_knowledge_def)
  moreover obtain kw where "load_keywords keywords_data = Inr kw"
    using load_lines_loop_Inr [of parse_keyword_line, OF parse_keyword_line_Inr] by (auto simp: load_keywords_def)
  moreover obtain st where "load_small_talk small_talk_data = Inr st"
    using load_lines_loop_Inr [of parse_small_talk_line, OF parse_small_talk_line_Inr] by (auto simp: load_small_talk_def)
  ultimately show ?thesis by (simp add: load_kb_def)
qed
subsection \<open>The loaders establish the invariant\<close>

lemma topic_key_lower_strip:
  assumes "CHR '':'' \<notin> set s"
  shows "topic_key (py_lower (py_strip s))"
proof -
  from assms have "CHR '':'' \<notin> set (py_lower (py_strip s))"
    using py_strip_subset [of s] by (auto simp: colon_py_lower)
  moreover have "py_strip (py_lower (py_strip s)) = py_lower (py_strip s)"
    by (simp add: py_strip_py_lower py_strip_idem)
  ultimately show ?thesis by (simp add: topic_key_def py_lower_idem)
qed

lemma parse_section_wf:
  assumes "parse_section s = Inr (t, c)"
  shows "knowledge_entry_wf t c"
proof -
  let ?lines = "py_split ''\<newline>'' (py_strip s)"
  from assms have t: "t = py_lower (py_strip (py_replace '':'' [] (hd ?lines)))"
    and c: "c = py_strip (py_join ''\<newline>'' (drop 1 ?lines))"
    by (simp_all add: parse_section_def Let_def py_index_py_split_0)
  have "CHR '':'' \<notin> set (py_replace '':'' [] (hd ?lines))"
    by (simp add: py_replace_char_Nil)
  then have "topic_key t" unfolding t by (rule topic_key_lower_strip)
  with c show ?thesis by (simp add: knowledge_entry_wf_def py_strip_idem)
qed

lemma load_knowledge_loop_wf:
  "load_knowledge_loop d ss = Inr d' \<Longrightarrow> dict_wf d \<Longrightarrow> \<forall>(t, c) \<in> set d. knowledge_entry_wf t c \<Longrightarrow>
     dict_wf d' \<and> (\<forall>(t, c) \<in> set d'. knowledge_entry_wf t c)"
proof (induction ss arbitrary: d)
  case (Cons s ss)
  obtain t c where tc: "parse_section s = Inr (t, c)" using parse_section_Inr by blast
  with Cons.prems(1) have "load_knowledge_loop (dict_set t c d) ss = Inr d'" by simp
  moreover from tc have "knowledge_entry_wf t c" by (rule parse_section_wf)
  ultimately show ?case using Cons.IH Cons.prems(2,3)
    by (simp add: dict_wf_dict_set dict_set_entries)
qed simp

lemma load_lines_loop_wf:
  "load_lines_loop parse d ls = Inr d' \<Longrightarrow> dict_wf d \<Longrightarrow> \<forall>(k, v) \<in> set d. P k v \<Longrightarrow>
     (\<And>l k v. parse l = Inr (Some (k, v)) \<Longrightarrow> P k v) \<Longrightarrow>
     dict_wf d' \<and> (\<forall>(k, v) \<in> set d'. P k v)"
proof (induction ls arbitrary: d)
  case (Cons l ls)
  note step = Cons.prems(1) and hyp = Cons.prems(2,3) and parse_ok = Cons.prems(4)
  show ?case
  proof (cases "parse l")
    case (Inl e)
    with step show ?thesis by simp
  next
    case (Inr r)
    show ?thesis
    proof (cases r)
      case None
      with Inr step have "load_lines_loop parse d ls = Inr d'" by simp
      from Cons.IH [OF this hyp parse_ok] show ?thesis .
    next
      case (Some kv)
      obtain k v where kv: "kv = (k, v)" by fastforce
      with Some Inr parse_ok have "P k v" by blast
      with hyp have hyp': "dict_wf (dict_set k v d)" "\<forall>(k', v') \<in> set (dict_set k v d). P k' v'"
        by (simp_all add: dict_wf_dict_set dict_set_entries)
      from Some Inr kv step have "load_lines_loop parse (dict_set k v d) ls = Inr d'" by simp
      from Cons.IH [OF this hyp' parse_ok] show ?thesis .
    qed
  qed
qed simp

lemma parse_keyword_line_wf:
  assumes "parse_keyword_line l = Inr (Some (t, ks))"
  shows "keyword_entry_wf t ks"
proof -
  from assms have "py_contains '':'' l" by (auto simp: parse_keyword_line_def split: if_splits)
  then obtain a b where ab: "py_split_once '':'' (py_strip l) = [a, b]" and a: "CHR '':'' \<notin> set a"
    using split_once_colon_line by blast
  with assms \<open>py_contains '':'' l\<close> have t: "t = py_strip a" and ks: "ks = map py_strip (py_split '','' b)"
    by (auto simp: parse_keyword_line_def)
  have "CHR '','' \<notin> set (py_strip x)" if "x \<in> set (py_split '','' b)" for x
    using py_split_char_free [OF that] py_strip_subset [of x] by auto
  with t ks a py_strip_subset [of a] show ?thesis by (auto simp: keyword_entry_wf_def py_strip_idem)
qed

lemma parse_small_talk_line_wf:
  assumes "parse_small_talk_line l = Inr (Some (t, r))"
  shows "small_talk_entry_wf t r"
proof -
  from assms have "py_contains '':'' l" by (auto simp: parse_small_talk_line_def split: if_splits)
  then obtain a b where ab: "py_split_once '':'' (py_strip l) = [a, b]" and a: "CHR '':'' \<notin> set a"
    using split_once_colon_line by blast
  with assms \<open>py_contains '':'' l\<close> have "t = py_lower (py_strip a)" and "r = py_strip b"
    by (auto simp: parse_small_talk_line_def)
  with a show ?thesis by (simp add: small_talk_entry_wf_def topic_key_lower_strip py_strip_idem)
qed

text \<open>C10: The loaded store is well formed: no dictionary has a key twice, knowledge titles
  and small-talk triggers are lower-cased, stripped and free of \<open>":"\<close>, keyword topics
  are stripped and free of \<open>":"\<close>, keywords are stripped and free of \<open>","\<close>, and
  contents and responses are stripped.\<close>

theorem load_kb_wf:
  assumes "load_kb knowledge_data keywords_data small_talk_data = Inr k"
  shows "kb_wf k"
proof -
  from assms obtain kn kw st where
    kn: "load_knowledge knowledge_data = Inr kn" and kw: "load_keywords keywords_data = Inr kw"
    and st: "load_small_talk small_talk_data = Inr st"
    and k: "k = \<lparr>kb_knowledge = kn, kb_keywords = kw, kb_small_talk = st\<rparr>"
    by (auto simp: load_kb_def split: sum.splits)
  from kn have "dict_wf kn \<and> (\<forall>(t, c) \<in> set kn. knowledge_entry_wf t c)"
    unfolding load_knowledge_def by (rule load_knowledge_loop_wf) simp_all
  moreover from kw have "dict_wf kw \<and> (\<forall>(t, ks) \<in> set kw. keyword_entry_wf t ks)"
    unfolding load_keywords_def by (rule load_lines_loop_wf) (auto intro: parse_keyword_line_wf)
  moreover from st have "dict_wf st \<and> (\<forall>(t, r) \<in> set st. small_talk_entry_wf t r)"
    unfolding load_small_talk_def by (rule load_lines_loop_wf) (auto intro: parse_small_talk_line_wf)
  ultimately show ?thesis by (simp add: kb_wf_def k)
qed

theorem load_kb_wf_witness:
  "load_kb ''Burns:\<newline>Cool it.'' ''burns: burn'' ''hello: Hi!'' =
     Inr \<lparr>kb_knowledge = [(''burns'', ''Cool it.'')], kb_keywords = [(''burns'', [''burn''])],
          kb_small_talk = [(''hello'', ''Hi!'')]\<rparr> \<and>
   kb_wf \<lparr>kb_knowledge = [(''burns'', ''Cool it.'')], kb_keywords = [(''burns'', [''burn''])],
          kb_small_talk = [(''hello'', ''Hi!'')]\<rparr>"
proof -
  have l: "load_kb ''Burns:\<newline>Cool it.'' ''burns: burn'' ''hello: Hi!'' =
     Inr \<lparr>kb_knowledge = [(''burns'', ''Cool it.'')], kb_keywords = [(''burns'', [''burn''])],
          kb_small_talk = [(''hello'', ''Hi!'')]\<rparr>"
    by code_simp
  show ?thesis using l load_kb_wf [OF l] by simp
qed

end
