(* ===== verification/Difflib_Match.thy ===== *)
theory Difflib_Match
  imports Prelude "HOL-Library.Multiset"
begin

text \<open>
  The part of Python's \<open>difflib.SequenceMatcher\<close> that \<open>get_close_matches\<close> runs for
  each candidate: the index \<open>b2j\<close> built by \<open>set_seq2\<close> (\<open>__chain_b\<close>),
  \<open>find_longest_match\<close>, and the two cheap upper bounds \<open>real_quick_ratio\<close> and
  \<open>quick_ratio\<close>.  \<open>difflib\<close> is the standard library, not code of this repository;
  the definitions follow CPython's \<open>Lib/difflib.py\<close> line by line.  The program
  constructs the matcher with \<open>isjunk=None\<close> and the default \<open>autojunk=True\<close>, so the
  junk set \<open>bjunk\<close> is empty: the tests \<open>not isbjunk(...)\<close> are always true and the
  two junk-extension loops at the end of \<open>find_longest_match\<close> never run; both are
  left out.  Sequences are lists; a match is a triple \<open>(i, j, k)\<close>:
  \<open>a[i:i+k] == b[j:j+k]\<close>.
\<close>

type_synonym match = "nat \<times> nat \<times> nat"

subsection \<open>\<open>__chain_b\<close>: the index of \<open>b\<close>\<close>

text \<open>\<open>for i, elt in enumerate(b): b2j.setdefault(elt, []).append(i)\<close>; a dictionary
  from elements to their positions, written as a function whose value \<open>[]\<close> stands for
  an absent key (the only use is \<open>b2j.get(a[i], nothing)\<close> with \<open>nothing = []\<close>).\<close>

fun chain_b_go :: "nat \<Rightarrow> 'a list \<Rightarrow> ('a \<Rightarrow> nat list) \<Rightarrow> ('a \<Rightarrow> nat list)" where
  "chain_b_go i [] b2j = b2j"
| "chain_b_go i (elt # b) b2j = chain_b_go (Suc i) b (b2j(elt := b2j elt @ [i]))"

text \<open>With \<open>autojunk\<close>, when \<open>len(b) >= 200\<close> every element occurring more than
  \<open>len(b) // 100 + 1\<close> times is "popular" and deleted from the index.\<close>

definition chain_b :: "'a list \<Rightarrow> ('a \<Rightarrow> nat list)" where
  "chain_b b =
     (let b2j = chain_b_go 0 b (\<lambda>_. []); n = length b in
      if 200 \<le> n then (\<lambda>elt. if n div 100 + 1 < length (b2j elt) then [] else b2j elt)
      else b2j)"

subsection \<open>\<open>find_longest_match\<close>\<close>

text \<open>The inner loop over \<open>j in b2j.get(a[i], nothing)\<close>: \<open>j2len\<close> is the previous row,
  the accumulator holds the row being built (\<open>newj2len\<close>) and the best match so far.
  \<open>j2len.get(j-1, 0)\<close> at \<open>j = 0\<close> asks for the key \<open>-1\<close>, which is never present.\<close>

fun flm_row ::
  "(nat \<rightharpoonup> nat) \<Rightarrow> nat \<Rightarrow> nat \<Rightarrow> nat \<Rightarrow> nat list \<Rightarrow> (nat \<rightharpoonup> nat) \<times> match \<Rightarrow> (nat \<rightharpoonup> nat) \<times> match" where
  "flm_row j2len i blo bhi [] acc = acc"
| "flm_row j2len i blo bhi (j # js) (newj2len, (besti, bestj, bestsize)) =
     (if j < blo then flm_row j2len i blo bhi js (newj2len, (besti, bestj, bestsize))
      else if bhi \<le> j then (newj2len, (besti, bestj, bestsize))
      else
        (let k = (if j = 0 then 0 else (case j2len (j - 1) of None \<Rightarrow> 0 | Some x \<Rightarrow> x)) + 1
         in flm_row j2len i blo bhi js
              (newj2len(j \<mapsto> k),
               (if bestsize < k then (Suc i - k, Suc j - k, k) else (besti, bestj, bestsize)))))"

text \<open>The outer loop \<open>for i in range(alo, ahi)\<close>, one row per \<open>i\<close>.\<close>

fun flm_rows ::
  "'a list \<Rightarrow> ('a \<Rightarrow> nat list) \<Rightarrow> nat \<Rightarrow> nat \<Rightarrow> nat list \<Rightarrow> (nat \<rightharpoonup> nat) \<Rightarrow> match \<Rightarrow> match" where
  "flm_rows a b2j blo bhi [] j2len best = best"
| "flm_rows a b2j blo bhi (i # is) j2len best =
     (case flm_row j2len i blo bhi (b2j (a ! i)) (Map.empty, best) of
        (newj2len, best') \<Rightarrow> flm_rows a b2j blo bhi is newj2len best')"

text \<open>The two extension loops over non-junk elements.\<close>

function ext_left :: "'a list \<Rightarrow> 'a list \<Rightarrow> nat \<Rightarrow> nat \<Rightarrow> match \<Rightarrow> match" where
  "ext_left a b alo blo (besti, bestj, bestsize) =
     (if alo < besti \<and> blo < bestj \<and> a ! (besti - 1) = b ! (bestj - 1)
      then ext_left a b alo blo (besti - 1, bestj - 1, bestsize + 1)
      else (besti, bestj, bestsize))"
  by pat_completeness auto
termination
  by (relation "measure (\<lambda>(a, b, alo, blo, besti, bestj, bestsize). besti)") auto

function ext_right :: "'a list \<Rightarrow> 'a list \<Rightarrow> nat \<Rightarrow> nat \<Rightarrow> match \<Rightarrow> match" where
  "ext_right a b ahi bhi (besti, bestj, bestsize) =
     (if besti + bestsize < ahi \<and> bestj + bestsize < bhi \<and> a ! (besti + bestsize) = b ! (bestj + bestsize)
      then ext_right a b ahi bhi (besti, bestj, bestsize + 1)
      else (besti, bestj, bestsize))"
  by pat_completeness auto
termination
  by (relation "measure (\<lambda>(a, b, ahi, bhi, besti, bestj, bestsize). ahi - (besti + bestsize))") auto

declare ext_left.simps [simp del] ext_right.simps [simp del]

definition find_longest_match ::
  "'a list \<Rightarrow> 'a list \<Rightarrow> ('a \<Rightarrow> nat list) \<Rightarrow> nat \<Rightarrow> nat \<Rightarrow> nat \<Rightarrow> nat \<Rightarrow> match" where
  "find_longest_match a b b2j alo ahi blo bhi =
     ext_right a b ahi bhi
       (ext_left a b alo blo (flm_rows a b2j blo bhi [alo..<ahi] Map.empty (alo, blo, 0)))"

subsection \<open>The cheap upper bounds\<close>

text \<open>\<open>_calculate_ratio(matches, length)\<close>: \<open>2.0 * matches / length\<close>, or \<open>1.0\<close> when
  both sequences are empty.  Python computes it in floating point; the model computes the
  exact rational.  The only use is a comparison with a cutoff and with other ratios; two
  distinct rationals with denominators below \<open>2^26\<close> never round to the same double, so
  the model decides every comparison the same way for strings shorter than that.\<close>

definition calculate_ratio :: "nat \<Rightarrow> nat \<Rightarrow> rat" where
  "calculate_ratio matches len =
     (if len \<noteq> 0 then 2 * of_nat matches / of_nat len else 1)"

definition real_quick_ratio :: "'a list \<Rightarrow> 'a list \<Rightarrow> rat" where
  "real_quick_ratio a b = calculate_ratio (min (length a) (length b)) (length a + length b)"

text \<open>\<open>quick_ratio\<close>: \<open>fullbcount\<close> counts the elements of \<open>b\<close>; the loop over \<open>a\<close>
  takes one from \<open>avail\<close> per element and counts a match while some were left.\<close>

fun fullbcount_go :: "'a list \<Rightarrow> ('a \<rightharpoonup> int) \<Rightarrow> ('a \<rightharpoonup> int)" where
  "fullbcount_go [] m = m"
| "fullbcount_go (elt # b) m =
     fullbcount_go b (m(elt \<mapsto> (case m elt of None \<Rightarrow> 0 | Some c \<Rightarrow> c) + 1))"

fun quick_matches_go :: "('a \<rightharpoonup> int) \<Rightarrow> 'a list \<Rightarrow> ('a \<rightharpoonup> int) \<Rightarrow> nat \<Rightarrow> nat" where
  "quick_matches_go fullbcount [] avail matches = matches"
| "quick_matches_go fullbcount (elt # a) avail matches =
     (let numb = (case avail elt of
                    Some n \<Rightarrow> n
                  | None \<Rightarrow> (case fullbcount elt of None \<Rightarrow> 0 | Some c \<Rightarrow> c))
      in quick_matches_go fullbcount a (avail(elt \<mapsto> numb - 1))
           (if 0 < numb then matches + 1 else matches))"

definition quick_ratio :: "'a list \<Rightarrow> 'a list \<Rightarrow> rat" where
  "quick_ratio a b =
     calculate_ratio (quick_matches_go (fullbcount_go b Map.empty) a Map.empty 0) (length a + length b)"

subsection \<open>Invariants\<close>

text \<open>\<open>b2j\<close> only lists positions that hold the element.  \<open>prev_row_ok\<close> is the
  invariant of \<open>j2len\<close> while row \<open>i\<close> is scanned: an entry \<open>j \<mapsto> v\<close> says that the
  \<open>v\<close> elements of \<open>a\<close> ending at \<open>i - 1\<close> equal the \<open>v\<close> elements of \<open>b\<close> ending at
  \<open>j\<close>, inside the ranges.  \<open>best_ok\<close> says that the best match is either the initial
  \<open>(alo, blo, 0)\<close> or a non-empty genuine match inside \<open>a[alo:ahi]\<close> and
  \<open>b[blo:bhi]\<close>.  \<open>avail_count\<close> reads \<open>avail\<close> with the fall-back to
  \<open>fullbcount\<close> that \<open>quick_ratio\<close> uses.\<close>

definition b2j_sound :: "'a list \<Rightarrow> ('a \<Rightarrow> nat list) \<Rightarrow> bool" where
  "b2j_sound b b2j \<longleftrightarrow> (\<forall>e. \<forall>j \<in> set (b2j e). j < length b \<and> b ! j = e)"

definition prev_row_ok :: "'a list \<Rightarrow> 'a list \<Rightarrow> nat \<Rightarrow> nat \<Rightarrow> nat \<Rightarrow> (nat \<rightharpoonup> nat) \<Rightarrow> bool" where
  "prev_row_ok a b alo blo i m \<longleftrightarrow>
     (\<forall>j v. m j = Some v \<longrightarrow> 0 < v \<and> v \<le> i - alo \<and> v \<le> Suc j - blo \<and>
        (\<forall>t<v. a ! (i - 1 - t) = b ! (j - t)))"

definition best_ok :: "'a list \<Rightarrow> 'a list \<Rightarrow> nat \<Rightarrow> nat \<Rightarrow> nat \<Rightarrow> nat \<Rightarrow> match \<Rightarrow> bool" where
  "best_ok a b alo ahi blo bhi m \<longleftrightarrow> m = (alo, blo, 0) \<or>
     (case m of (i, j, k) \<Rightarrow> 0 < k \<and> alo \<le> i \<and> i + k \<le> ahi \<and> blo \<le> j \<and> j + k \<le> bhi \<and>
        (\<forall>t<k. a ! (i + t) = b ! (j + t)))"

definition avail_count :: "('a \<rightharpoonup> int) \<Rightarrow> ('a \<rightharpoonup> int) \<Rightarrow> 'a \<Rightarrow> int" where
  "avail_count fullbcount avail e =
     (case avail e of Some n \<Rightarrow> n | None \<Rightarrow> (case fullbcount e of None \<Rightarrow> 0 | Some c \<Rightarrow> c))"

subsection \<open>The index\<close>

lemma chain_b_go_eq:
  "chain_b_go i b m e = m e @ map (\<lambda>t. i + t) (filter (\<lambda>t. b ! t = e) [0..<length b])"
proof (induction b arbitrary: i m)
  case (Cons x b)
  have "[0..<length (x # b)] = 0 # map Suc [0..<length b]"
    by (simp add: map_Suc_upt upt_conv_Cons del: upt_Suc)
  then show ?case using Cons.IH [of "Suc i"] by (simp add: filter_map comp_def)
qed simp

text \<open>\<open>__chain_b\<close> indexes \<open>b\<close> correctly: the positions of each element in
  increasing order, except that for \<open>len(b) >= 200\<close> an element occurring more than
  \<open>len(b) // 100 + 1\<close> times is dropped from the index.\<close>

theorem chain_b_eq:
  "chain_b b e =
     (if 200 \<le> length b \<and> length b div 100 + 1 < count_list b e then []
      else filter (\<lambda>j. b ! j = e) [0..<length b])"
proof -
  have len: "length (filter (\<lambda>j. b ! j = e) [0..<length b]) = count_list b e"
  proof -
    have "length (filter (\<lambda>j. b ! j = e) [0..<length b]) = length (filter (\<lambda>x. x = e) (map ((!) b) [0..<length b]))"
      by (simp add: length_filter_map comp_def)
    also have "\<dots> = length (filter (\<lambda>x. x = e) b)" by (simp add: map_nth)
    also have "\<dots> = count_list b e" by (induction b) auto
    finally show ?thesis .
  qed
  show ?thesis using len by (simp add: chain_b_def Let_def chain_b_go_eq)
qed

lemma chain_b_sound: "b2j_sound b (chain_b b)"
  by (auto simp: b2j_sound_def chain_b_def Let_def chain_b_go_eq split: if_splits)

lemma flm_k_ok:
  assumes prev: "prev_row_ok a b alo blo i j2len" and "alo \<le> i" "blo \<le> j" "b ! j = a ! i"
    and K: "K = (if j = 0 then 0 else (case j2len (j - 1) of None \<Rightarrow> 0 | Some x \<Rightarrow> x)) + 1"
  shows "0 < K \<and> K \<le> Suc i - alo \<and> K \<le> Suc j - blo \<and> (\<forall>t<K. a ! (i - t) = b ! (j - t))"
proof (cases "j \<noteq> 0 \<and> j2len (j - 1) \<noteq> None")
  case True
  then obtain x where x: "j2len (j - 1) = Some x" and "j \<noteq> 0" by auto
  with prev have "0 < x" "x \<le> i - alo" "x \<le> Suc (j - 1) - blo"
    and ch: "\<forall>t<x. a ! (i - 1 - t) = b ! (j - 1 - t)"
    unfolding prev_row_ok_def by blast+
  moreover have "K = x + 1" using K x \<open>j \<noteq> 0\<close> by simp
  moreover have "a ! (i - t) = b ! (j - t)" if "t < x + 1" for t
  proof (cases t)
    case (Suc t')
    with that ch have "a ! (i - 1 - t') = b ! (j - 1 - t')" by simp
    moreover have "i - 1 - t' = i - t" "j - 1 - t' = j - t" using Suc by simp_all
    ultimately show ?thesis by metis
  qed (use assms in simp)
  ultimately show ?thesis using \<open>j \<noteq> 0\<close> by auto
next
  case False
  then have "K = 1" using K by auto
  with assms show ?thesis by (simp add: Suc_diff_le)
qed

lemma best_ok_new:
  assumes "K \<le> Suc i - alo" "K \<le> Suc j - blo" "0 < K" "i < ahi" "j < bhi"
    and ch: "\<forall>t<K. a ! (i - t) = b ! (j - t)"
  shows "best_ok a b alo ahi blo bhi (Suc i - K, Suc j - K, K)"
proof -
  have "a ! (Suc i - K + t) = b ! (Suc j - K + t)" if "t < K" for t
  proof -
    have "K - 1 - t < K" using that by arith
    with ch have "a ! (i - (K - 1 - t)) = b ! (j - (K - 1 - t))" by blast
    moreover have "i - (K - 1 - t) = Suc i - K + t" "j - (K - 1 - t) = Suc j - K + t"
      using assms that by arith+
    ultimately show ?thesis by metis
  qed
  with assms show ?thesis unfolding best_ok_def by auto
qed

lemma flm_row_ok:
  assumes "alo \<le> i" "i < ahi" "\<forall>j\<in>set js. b ! j = a ! i" "prev_row_ok a b alo blo i j2len"
  shows "prev_row_ok a b alo blo (Suc i) new \<Longrightarrow> best_ok a b alo ahi blo bhi best \<Longrightarrow>
     (case flm_row j2len i blo bhi js (new, best) of (new', best') \<Rightarrow>
        prev_row_ok a b alo blo (Suc i) new' \<and> best_ok a b alo ahi blo bhi best')"
  using assms(3)
proof (induction js arbitrary: new best)
  case (Cons j js)
  obtain besti bestj bestsize where best: "best = (besti, bestj, bestsize)" by (cases best) auto
  show ?case
  proof (cases "j < blo \<or> bhi \<le> j")
    case True
    with Cons best show ?thesis by auto
  next
    case False
    define K where "K = (if j = 0 then 0 else (case j2len (j - 1) of None \<Rightarrow> 0 | Some x \<Rightarrow> x)) + 1"
    from Cons.prems(3) have "b ! j = a ! i" by simp
    with assms(1,4) False have k: "0 < K \<and> K \<le> Suc i - alo \<and> K \<le> Suc j - blo \<and> (\<forall>t<K. a ! (i - t) = b ! (j - t))"
      using flm_k_ok K_def by (metis not_le)
    then have newok: "prev_row_ok a b alo blo (Suc i) (new(j \<mapsto> K))"
      using Cons.prems(1) by (auto simp: prev_row_ok_def)
    define best' where "best' = (if bestsize < K then (Suc i - K, Suc j - K, K) else (besti, bestj, bestsize))"
    have bestok: "best_ok a b alo ahi blo bhi best'"
      using k False assms(2) Cons.prems(2) best best_ok_new [of K i alo j blo ahi bhi a b]
      by (auto simp: best'_def)
    have eq: "flm_row j2len i blo bhi (j # js) (new, best) =
        flm_row j2len i blo bhi js (new(j \<mapsto> K), best')"
      using False best by (simp add: K_def best'_def Let_def)
    from Cons.prems(3) have js: "\<forall>j\<in>set js. b ! j = a ! i" by simp
    show ?thesis unfolding eq by (rule Cons.IH [OF newok bestok js])
  qed
qed simp

lemma flm_rows_ok:
  assumes "b2j_sound b b2j"
  shows "alo \<le> i \<Longrightarrow> prev_row_ok a b alo blo i m \<Longrightarrow> best_ok a b alo ahi blo bhi best \<Longrightarrow>
    best_ok a b alo ahi blo bhi (flm_rows a b2j blo bhi [i..<ahi] m best)"
proof (induction "ahi - i" arbitrary: i m best)
  case 0
  then show ?case by simp
next
  case (Suc n)
  then have i: "i < ahi" by arith
  from assms have js: "\<forall>j\<in>set (b2j (a ! i)). b ! j = a ! i" by (simp add: b2j_sound_def)
  have empty: "prev_row_ok a b alo blo (Suc i) Map.empty" by (simp add: prev_row_ok_def)
  obtain new' best' where row: "flm_row m i blo bhi (b2j (a ! i)) (Map.empty, best) = (new', best')"
    by (metis surj_pair)
  from flm_row_ok [OF Suc.prems(1) i js Suc.prems(2) empty Suc.prems(3)] row
  have "prev_row_ok a b alo blo (Suc i) new'" "best_ok a b alo ahi blo bhi best'" by simp_all
  with Suc.hyps(1) [of "Suc i"] Suc.hyps(2) Suc.prems(1) i
  have "best_ok a b alo ahi blo bhi (flm_rows a b2j blo bhi [Suc i..<ahi] new' best')" by simp
  with i row show ?case by (simp add: upt_conv_Cons)
qed

lemma ext_left_ok:
  "best_ok a b alo ahi blo bhi m \<Longrightarrow> best_ok a b alo ahi blo bhi (ext_left a b alo blo m)"
proof (induction a b alo blo m rule: ext_left.induct)
  case (1 a b alo blo besti bestj bestsize)
  show ?case
  proof (cases "alo < besti \<and> blo < bestj \<and> a ! (besti - 1) = b ! (bestj - 1)")
    case True
    with "1.prems" have ok: "0 < bestsize \<and> alo \<le> besti \<and> besti + bestsize \<le> ahi \<and> blo \<le> bestj \<and>
        bestj + bestsize \<le> bhi \<and> (\<forall>t<bestsize. a ! (besti + t) = b ! (bestj + t))"
      by (auto simp: best_ok_def)
    have "a ! (besti - 1 + t) = b ! (bestj - 1 + t)" if "t < bestsize + 1" for t
    proof (cases t)
      case (Suc t')
      with that ok True show ?thesis by auto
    qed (use True in simp)
    with ok True have "best_ok a b alo ahi blo bhi (besti - 1, bestj - 1, bestsize + 1)"
      by (auto simp: best_ok_def)
    with True "1.IH" show ?thesis by (simp add: ext_left.simps [of a b alo blo besti bestj bestsize])
  next
    case False
    have "ext_left a b alo blo (besti, bestj, bestsize) = (besti, bestj, bestsize)"
      by (subst ext_left.simps) (rule if_not_P [OF False])
    with "1.prems" show ?thesis by simp
  qed
qed

lemma ext_right_ok:
  "best_ok a b alo ahi blo bhi m \<Longrightarrow> best_ok a b alo ahi blo bhi (ext_right a b ahi bhi m)"
proof (induction a b ahi bhi m rule: ext_right.induct)
  case (1 a b ahi bhi besti bestj bestsize)
  show ?case
  proof (cases "besti + bestsize < ahi \<and> bestj + bestsize < bhi \<and> a ! (besti + bestsize) = b ! (bestj + bestsize)")
    case True
    with "1.prems" have "alo \<le> besti \<and> blo \<le> bestj \<and> (\<forall>t<bestsize. a ! (besti + t) = b ! (bestj + t))"
      by (auto simp: best_ok_def)
    with True have "best_ok a b alo ahi blo bhi (besti, bestj, bestsize + 1)"
      by (auto simp: best_ok_def less_Suc_eq)
    with True "1.IH" show ?thesis by (simp add: ext_right.simps [of a b ahi bhi besti bestj bestsize])
  next
    case False
    have "ext_right a b ahi bhi (besti, bestj, bestsize) = (besti, bestj, bestsize)"
      by (subst ext_right.simps) (rule if_not_P [OF False])
    with "1.prems" show ?thesis by simp
  qed
qed

lemma find_longest_match_ok:
  "b2j_sound b b2j \<Longrightarrow> best_ok a b alo ahi blo bhi (find_longest_match a b b2j alo ahi blo bhi)"
  unfolding find_longest_match_def
  by (intro ext_right_ok ext_left_ok flm_rows_ok) (simp_all add: prev_row_ok_def best_ok_def)

lemma fullbcount_go_eq:
  "fullbcount_go b m e =
     (if e \<in> set b then Some ((case m e of None \<Rightarrow> 0 | Some c \<Rightarrow> c) + int (count_list b e)) else m e)"
  by (induction b arbitrary: m) (auto split: option.splits)

lemma quick_matches_go_eq:
  "(\<forall>e. nat (avail_count F avail e) = count M e) \<Longrightarrow>
     quick_matches_go F a avail n = n + size (mset a \<inter># M)"
proof (induction a arbitrary: avail n M)
  case (Cons x a)
  define numb where "numb = avail_count F avail x"
  have cx: "nat numb = count M x" using Cons.prems [rule_format, of x] by (simp add: numb_def)
  have avail': "\<forall>e. nat (avail_count F (avail(x \<mapsto> numb - 1)) e) = count (M - {#x#}) e"
  proof
    fix e
    show "nat (avail_count F (avail(x \<mapsto> numb - 1)) e) = count (M - {#x#}) e"
    proof (cases "e = x")
      case True
      have "nat (numb - 1) = nat numb - 1" by arith
      with True cx show ?thesis by (simp add: avail_count_def)
    next
      case False
      with Cons.prems [rule_format, of e] show ?thesis by (simp add: avail_count_def)
    qed
  qed
  have step: "quick_matches_go F (x # a) avail n =
      quick_matches_go F a (avail(x \<mapsto> numb - 1)) (if 0 < numb then n + 1 else n)"
    by (simp add: numb_def avail_count_def Let_def)
  show ?case
  proof (cases "0 < numb")
    case True
    with cx have "0 < count M x" by linarith
    then have "x \<in># M" by simp
    with True show ?thesis using step Cons.IH [OF avail'] by (simp add: inter_add_left2)
  next
    case False
    with cx have "count M x = 0" by simp
    then have "x \<notin># M" by (simp add: not_in_iff)
    then have "M - {#x#} = M" by simp
    with False \<open>x \<notin># M\<close> show ?thesis using step Cons.IH [OF avail'] by (simp add: inter_add_left1)
  qed
qed simp

lemma quick_matches_eq:
  "quick_matches_go (fullbcount_go b Map.empty) a Map.empty 0 = size (mset a \<inter># mset b)"
proof -
  have "\<forall>e. nat (avail_count (fullbcount_go b Map.empty) Map.empty e) = count (mset b) e"
    by (auto simp: avail_count_def fullbcount_go_eq count_mset count_list_0_iff)
  from quick_matches_go_eq [OF this, of a 0] show ?thesis by simp
qed

subsection \<open>Ordering of the three ratios\<close>

lemma flm_bounds:
  "find_longest_match a b (chain_b b) alo ahi blo bhi = (i, j, k) \<Longrightarrow> 0 < k \<Longrightarrow>
     alo \<le> i \<and> i + k \<le> ahi \<and> blo \<le> j \<and> j + k \<le> bhi"
  using find_longest_match_ok [OF chain_b_sound [of b], where a = a and alo = alo and ahi = ahi
      and blo = blo and bhi = bhi]
  by (auto simp: best_ok_def)

lemma calculate_ratio_mono: "m \<le> m' \<Longrightarrow> calculate_ratio m l \<le> calculate_ratio m' l"
  by (simp add: calculate_ratio_def divide_right_mono)

lemma calculate_ratio_bounds: "2 * m \<le> l \<Longrightarrow> 0 \<le> calculate_ratio m l \<and> calculate_ratio m l \<le> 1"
proof (cases "l = 0")
  case False
  moreover assume "2 * m \<le> l"
  then have "(2 * of_nat m :: rat) \<le> of_nat l" by (metis of_nat_le_iff of_nat_mult of_nat_numeral)
  ultimately show ?thesis by (simp add: calculate_ratio_def divide_le_eq_1)
qed (simp add: calculate_ratio_def)

text \<open>The counting loop of \<open>quick_ratio\<close> computes the size of the multiset
  intersection of the two sequences.\<close>

theorem quick_ratio_eq: "quick_ratio a b = calculate_ratio (size (mset a \<inter># mset b)) (length a + length b)"
  by (simp add: quick_ratio_def quick_matches_eq)

lemma size_inter_mset_le: "size (mset a \<inter># mset b) \<le> min (length a) (length b)"
proof -
  have "size (mset a \<inter># mset b) \<le> size (mset a)"
    by (rule size_mset_mono) (rule subset_mset.inf_le1)
  moreover have "size (mset a \<inter># mset b) \<le> size (mset b)"
    by (rule size_mset_mono) (rule subset_mset.inf_le2)
  ultimately have "size (mset a \<inter># mset b) \<le> length a" "size (mset a \<inter># mset b) \<le> length b"
    by simp_all
  then show ?thesis by simp
qed

lemma quick_ratio_le_real_quick_ratio: "quick_ratio a b \<le> real_quick_ratio a b"
  unfolding quick_ratio_def quick_matches_eq real_quick_ratio_def
  by (rule calculate_ratio_mono [OF size_inter_mset_le])

end
