(* ===== verification/Difflib.thy ===== *)
theory Difflib
  imports Difflib_Match "HOL-Library.Product_Lexorder" "HOL-Library.List_Lexorder" "HOL-Library.Char_ord"
begin

text \<open>
  The rest of the fuzzy matcher: \<open>SequenceMatcher.get_matching_blocks\<close> (the explicit
  stack of sub-ranges, then \<open>sort\<close> and the merge of adjacent blocks), \<open>ratio\<close>, the
  \<open>n == 1\<close> path of \<open>heapq.nlargest\<close>, and \<open>difflib.get_close_matches\<close>, which line
  61 of \<open>src/offline_agent.py\<close> calls with \<open>n=1, cutoff=0.4\<close>.  Like
  \<open>Difflib_Match\<close> this is a model of CPython's \<open>Lib/difflib.py\<close> and
  \<open>Lib/heapq.py\<close>, not of code of the repository.
\<close>

subsection \<open>\<open>get_matching_blocks\<close>\<close>

text \<open>The loop \<open>while queue: alo, ahi, blo, bhi = queue.pop() ...\<close>.  The Python list is a
  stack whose top is its last element; here the top is the head, so the two \<open>append\<close>
  calls, left range first, put the right range on top.\<close>

function mb_loop :: "'a list \<Rightarrow> 'a list \<Rightarrow> (nat \<times> nat \<times> nat \<times> nat) list \<Rightarrow> match list \<Rightarrow> match list" where
  "mb_loop a b [] matching_blocks = matching_blocks"
| "mb_loop a b ((alo, ahi, blo, bhi) # queue) matching_blocks =
     (case find_longest_match a b (chain_b b) alo ahi blo bhi of
        (i, j, k) \<Rightarrow>
          (if k \<noteq> 0 then
             mb_loop a b
               ((if i + k < ahi \<and> j + k < bhi then [(i + k, ahi, j + k, bhi)] else []) @
                (if alo < i \<and> blo < j then [(alo, i, blo, j)] else []) @ queue)
               (matching_blocks @ [(i, j, k)])
           else mb_loop a b queue matching_blocks))"
  by pat_completeness auto
termination
  by (relation "measure (\<lambda>(a, b, queue, acc). sum_list (map (\<lambda>(alo, ahi, blo, bhi). 2 * (ahi - alo) + 1) queue))")
    (auto dest!: flm_bounds [OF sym])

declare mb_loop.simps(2) [simp del]

text \<open>The reference the loop is checked against: the same divide and conquer written as
  plain recursion, left part, block, right part.\<close>

function mb_rec :: "'a list \<Rightarrow> 'a list \<Rightarrow> nat \<Rightarrow> nat \<Rightarrow> nat \<Rightarrow> nat \<Rightarrow> match list" where
  "mb_rec a b alo ahi blo bhi =
     (case find_longest_match a b (chain_b b) alo ahi blo bhi of
        (i, j, k) \<Rightarrow>
          (if k \<noteq> 0 then
             (if alo < i \<and> blo < j then mb_rec a b alo i blo j else []) @ [(i, j, k)] @
             (if i + k < ahi \<and> j + k < bhi then mb_rec a b (i + k) ahi (j + k) bhi else [])
           else []))"
  by pat_completeness auto
termination
  by (relation "measure (\<lambda>(a, b, alo, ahi, blo, bhi). ahi - alo)") (auto dest!: flm_bounds [OF sym])

declare mb_rec.simps [simp del]

text \<open>\<open>matching_blocks.sort()\<close>, then merge neighbours \<open>(i1, j1, k1)\<close>,
  \<open>(i2, j2, k2)\<close> with \<open>i1 + k1 == i2\<close> and \<open>j1 + k1 == j2\<close>; finally the sentinel
  \<open>(la, lb, 0)\<close>.\<close>

fun collapse_go :: "match \<Rightarrow> match list \<Rightarrow> match list" where
  "collapse_go (i1, j1, k1) [] = (if k1 \<noteq> 0 then [(i1, j1, k1)] else [])"
| "collapse_go (i1, j1, k1) ((i2, j2, k2) # bs) =
     (if i1 + k1 = i2 \<and> j1 + k1 = j2 then collapse_go (i1, j1, k1 + k2) bs
      else (if k1 \<noteq> 0 then [(i1, j1, k1)] else []) @ collapse_go (i2, j2, k2) bs)"

definition get_matching_blocks :: "'a list \<Rightarrow> 'a list \<Rightarrow> match list" where
  "get_matching_blocks a b =
     (let la = length a; lb = length b
      in collapse_go (0, 0, 0) (sort (mb_loop a b [(0, la, 0, lb)] [])) @ [(la, lb, 0)])"

definition ratio :: "'a list \<Rightarrow> 'a list \<Rightarrow> rat" where
  "ratio a b =
     calculate_ratio (sum_list (map (\<lambda>(i, j, k). k) (get_matching_blocks a b))) (length a + length b)"

text \<open>The total length of a list of blocks, the number \<open>ratio\<close> sums.\<close>

abbreviation block_sizes :: "match list \<Rightarrow> nat" where
  "block_sizes bs \<equiv> sum_list (map (\<lambda>(i, j, k). k) bs)"

subsection \<open>\<open>get_close_matches\<close>\<close>

text \<open>\<open>heapq.nlargest(1, it)\<close> is \<open>max(it, default=sentinel)\<close>, which keeps the first of
  equal maxima (\<open>if item > maxval: maxval = item\<close>).\<close>

fun py_max_go :: "'b::linorder \<Rightarrow> 'b list \<Rightarrow> 'b" where
  "py_max_go m [] = m"
| "py_max_go m (x # xs) = py_max_go (if m < x then x else m) xs"

definition nlargest1 :: "'b::linorder list \<Rightarrow> 'b list" where
  "nlargest1 xs = (case xs of [] \<Rightarrow> [] | x # xs' \<Rightarrow> [py_max_go x xs'])"

text \<open>\<open>get_close_matches(word, possibilities, n=1, cutoff)\<close>: each candidate \<open>x\<close> is
  \<open>a\<close> and the word is \<open>b\<close>; a candidate is kept when all three ratios reach the
  cutoff, as the pair \<open>(ratio, x)\<close>; the largest pair wins, ties between equal ratios
  going to the larger string.  A cutoff outside \<open>[0, 1]\<close> raises \<open>ValueError\<close>.\<close>

definition close_candidates :: "'a list \<Rightarrow> 'a list list \<Rightarrow> rat \<Rightarrow> (rat \<times> 'a list) list" where
  "close_candidates word possibilities cutoff =
     map (\<lambda>x. (ratio x word, x))
       (filter (\<lambda>x. cutoff \<le> real_quick_ratio x word \<and> cutoff \<le> quick_ratio x word \<and> cutoff \<le> ratio x word)
          possibilities)"

definition get_close_matches :: "'a::linorder list \<Rightarrow> 'a list list \<Rightarrow> rat \<Rightarrow> py_exc + 'a list list" where
  "get_close_matches word possibilities cutoff =
     (if \<not> (0 \<le> cutoff \<and> cutoff \<le> 1) then Inl ValueError
      else Inr (map snd (nlargest1 (close_candidates word possibilities cutoff))))"

subsection \<open>The stack loop computes the divide and conquer\<close>

lemma mb_loop_mb_rec:
  "mset (mb_loop a b queue acc) =
     mset acc + sum_list (map (\<lambda>(alo, ahi, blo, bhi). mset (mb_rec a b alo ahi blo bhi)) queue)"
proof (induction a b queue acc rule: mb_loop.induct)
  case (2 a b alo ahi blo bhi queue acc)
  obtain i j k where flm: "find_longest_match a b (chain_b b) alo ahi blo bhi = (i, j, k)"
    by (metis prod_cases3)
  show ?case
  proof (cases "k = 0")
    case True
    with flm "2.IH"(2) [OF flm [symmetric] refl] show ?thesis
      by (simp add: mb_rec.simps [of a b alo ahi blo bhi] mb_loop.simps(2))
  next
    case False
    with flm "2.IH"(1) [OF flm [symmetric] refl] show ?thesis
      by (simp add: mb_rec.simps [of a b alo ahi blo bhi] mb_loop.simps(2) ac_simps)
  qed
qed simp

subsection \<open>\<open>ratio\<close> is bounded by \<open>quick_ratio\<close>\<close>

lemma size_inter_split:
  "size (A1 \<inter># B1) + size A2 + size (A3 \<inter># B3) \<le> size ((A1 + A2 + A3) \<inter># (B1 + A2 + B3))"
proof -
  have "(A1 \<inter># B1) + A2 + (A3 \<inter># B3) \<subseteq># A1 + A2 + A3"
    by (intro subset_mset.add_mono subset_mset.inf_le1 subset_mset.order_refl)
  moreover have "(A1 \<inter># B1) + A2 + (A3 \<inter># B3) \<subseteq># B1 + A2 + B3"
    by (intro subset_mset.add_mono subset_mset.inf_le2 subset_mset.order_refl)
  ultimately have "(A1 \<inter># B1) + A2 + (A3 \<inter># B3) \<subseteq># (A1 + A2 + A3) \<inter># (B1 + A2 + B3)"
    by simp
  then show ?thesis by (metis size_mset_mono size_union)
qed

lemma py_slice_eq_block:
  assumes "\<forall>t<k. a ! (i + t) = b ! (j + t)" "i + k \<le> length a" "j + k \<le> length b"
  shows "py_slice a i (i + k) = py_slice b j (j + k)"
  using assms by (auto simp: py_slice_def intro: nth_equalityI)

lemma mb_rec_le:
  "ahi \<le> length a \<Longrightarrow> bhi \<le> length b \<Longrightarrow>
     block_sizes (mb_rec a b alo ahi blo bhi) \<le> size (mset (py_slice a alo ahi) \<inter># mset (py_slice b blo bhi))"
proof (induction a b alo ahi blo bhi rule: mb_rec.induct)
  case (1 a b alo ahi blo bhi)
  obtain i j k where flm: "find_longest_match a b (chain_b b) alo ahi blo bhi = (i, j, k)"
    by (metis prod_cases3)
  show ?case
  proof (cases "k = 0")
    case True
    with flm show ?thesis by (simp add: mb_rec.simps [of a b alo ahi blo bhi])
  next
    case False
    with flm have bnd: "alo \<le> i \<and> i + k \<le> ahi \<and> blo \<le> j \<and> j + k \<le> bhi"
      using flm_bounds by blast
    from flm False have "\<forall>t<k. a ! (i + t) = b ! (j + t)"
      using find_longest_match_ok [OF chain_b_sound [of b], where a = a and alo = alo and ahi = ahi
          and blo = blo and bhi = bhi]
      by (auto simp: best_ok_def)
    with bnd "1.prems" have blk: "py_slice a i (i + k) = py_slice b j (j + k)"
      by (intro py_slice_eq_block) auto
    have blen: "length (py_slice a i (i + k)) = k" using bnd "1.prems" by (simp add: py_slice_def min_def; arith)
    define L where "L = (if alo < i \<and> blo < j then mb_rec a b alo i blo j else [])"
    define R where "R = (if i + k < ahi \<and> j + k < bhi then mb_rec a b (i + k) ahi (j + k) bhi else [])"
    have L: "block_sizes L \<le> size (mset (py_slice a alo i) \<inter># mset (py_slice b blo j))"
      using "1.IH"(1) [OF flm [symmetric] refl] False bnd "1.prems" by (auto simp: L_def)
    have R: "block_sizes R \<le> size (mset (py_slice a (i + k) ahi) \<inter># mset (py_slice b (j + k) bhi))"
      using "1.IH"(2) [OF flm [symmetric] refl] False bnd "1.prems" by (auto simp: R_def)
    have "mb_rec a b alo ahi blo bhi = L @ [(i, j, k)] @ R"
      using flm False by (simp add: mb_rec.simps [of a b alo ahi blo bhi] L_def R_def)
    then have "block_sizes (mb_rec a b alo ahi blo bhi) = block_sizes L + k + block_sizes R" by simp
    also have "\<dots> \<le> size (mset (py_slice a alo i) \<inter># mset (py_slice b blo j)) + size (mset (py_slice a i (i + k)))
        + size (mset (py_slice a (i + k) ahi) \<inter># mset (py_slice b (j + k) bhi))"
      using L R blen by simp
    also have "\<dots> \<le> size ((mset (py_slice a alo i) + mset (py_slice a i (i + k)) + mset (py_slice a (i + k) ahi))
        \<inter># (mset (py_slice b blo j) + mset (py_slice a i (i + k)) + mset (py_slice b (j + k) bhi)))"
      by (rule size_inter_split)
    also have "\<dots> = size (mset (py_slice a alo ahi) \<inter># mset (py_slice b blo bhi))"
      using bnd blk py_slice_split [of alo i ahi a] py_slice_split [of i "i + k" ahi a]
        py_slice_split [of blo j bhi b] py_slice_split [of j "j + k" bhi b]
      by (simp add: ac_simps)
    finally show ?thesis .
  qed
qed

lemma block_sizes_collapse_go:
  "block_sizes (collapse_go (i1, j1, k1) bs) = k1 + block_sizes bs"
  by (induction "(i1, j1, k1)" bs arbitrary: i1 j1 k1 rule: collapse_go.induct) auto

lemma block_sizes_mset: "mset xs = mset ys \<Longrightarrow> block_sizes xs = block_sizes ys"
  by (metis mset_map sum_mset_sum_list)

lemma matching_total:
  "block_sizes (mb_loop a b [(0, length a, 0, length b)] []) = block_sizes (mb_rec a b 0 (length a) 0 (length b))"
  by (rule block_sizes_mset) (simp add: mb_loop_mb_rec)

lemma ratio_eq:
  "ratio a b = calculate_ratio (block_sizes (mb_rec a b 0 (length a) 0 (length b))) (length a + length b)"
proof -
  have "block_sizes (get_matching_blocks a b) = block_sizes (sort (mb_loop a b [(0, length a, 0, length b)] []))"
    by (simp add: get_matching_blocks_def Let_def block_sizes_collapse_go)
  also have "\<dots> = block_sizes (mb_loop a b [(0, length a, 0, length b)] [])"
    by (rule block_sizes_mset) simp
  finally show ?thesis by (simp add: ratio_def matching_total)
qed

lemma ratio_le_quick_ratio: "ratio a b \<le> quick_ratio a b"
  unfolding ratio_eq quick_ratio_def quick_matches_eq
  by (rule calculate_ratio_mono) (use mb_rec_le [of "length a" a "length b" b 0 0] in simp)

lemma ratio_bounds: "0 \<le> ratio a b \<and> ratio a b \<le> 1"
proof -
  have "block_sizes (mb_rec a b 0 (length a) 0 (length b)) \<le> min (length a) (length b)"
    using mb_rec_le [of "length a" a "length b" b 0 0] size_inter_mset_le [of a b] by simp
  then show ?thesis unfolding ratio_eq by (intro calculate_ratio_bounds) simp
qed

lemma cascade_iff:
  "(cutoff \<le> real_quick_ratio x word \<and> cutoff \<le> quick_ratio x word \<and> cutoff \<le> ratio x word)
     = (cutoff \<le> ratio x word)"
  using ratio_le_quick_ratio [of x word] quick_ratio_le_real_quick_ratio [of x word] by auto

text \<open>The cascade \<open>real_quick_ratio() >= cutoff and quick_ratio() >= cutoff and
  ratio() >= cutoff\<close> in \<open>get_close_matches\<close> keeps exactly the candidates whose
  \<open>ratio\<close> reaches the cutoff: the two cheap tests are upper bounds and only save time.\<close>

theorem close_candidates_ratio:
  "close_candidates word possibilities cutoff =
     map (\<lambda>x. (ratio x word, x)) (filter (\<lambda>x. cutoff \<le> ratio x word) possibilities)"
  by (simp add: close_candidates_def cascade_iff)

lemma py_max_go_mem: "py_max_go m xs \<in> insert m (set xs)"
  by (induction m xs rule: py_max_go.induct) auto

lemma py_max_go_ge: "y \<in> insert m (set xs) \<Longrightarrow> y \<le> py_max_go m xs"
proof (induction m xs arbitrary: y rule: py_max_go.induct)
  case (2 m x xs)
  have "m \<le> py_max_go (if m < x then x else m) xs" "x \<le> py_max_go (if m < x then x else m) xs"
    using "2.IH" [of "if m < x then x else m"] by (auto split: if_splits)
  with "2.prems" "2.IH" show ?case by auto
qed simp

lemma nlargest1_spec:
  "nlargest1 xs = (if xs = [] then [] else [m. m \<leftarrow> [py_max_go (hd xs) (tl xs)]]) \<and>
   (xs \<noteq> [] \<longrightarrow> py_max_go (hd xs) (tl xs) \<in> set xs \<and> (\<forall>y \<in> set xs. y \<le> py_max_go (hd xs) (tl xs)))"
  using py_max_go_mem [of "hd xs" "tl xs"] py_max_go_ge [of _ "hd xs" "tl xs"]
  by (cases xs) (auto simp: nlargest1_def)

lemma nlargest1_Max: "xs \<noteq> [] \<Longrightarrow> nlargest1 xs = [Max (set xs)]"
  using nlargest1_spec [of xs] by (auto intro!: Max_eqI [symmetric])

subsection \<open>What \<open>get_close_matches\<close> returns\<close>

lemma get_close_matches_Inr:
  "0 \<le> cutoff \<Longrightarrow> cutoff \<le> 1 \<Longrightarrow>
     get_close_matches word ps cutoff =
       Inr (map snd (nlargest1 (map (\<lambda>x. (ratio x word, x)) (filter (\<lambda>x. cutoff \<le> ratio x word) ps))))"
  by (simp add: get_close_matches_def close_candidates_def cascade_iff)

lemma get_close_matches_best:
  assumes "get_close_matches word ps cutoff = Inr [x]"
  shows "x \<in> set ps \<and> cutoff \<le> ratio x word \<and>
    (\<forall>y \<in> set ps. cutoff \<le> ratio y word \<longrightarrow> (ratio y word, y) \<le> (ratio x word, x))"
proof -
  let ?cs = "map (\<lambda>x. (ratio x word, x)) (filter (\<lambda>x. cutoff \<le> ratio x word) ps)"
  from assms have c: "0 \<le> cutoff \<and> cutoff \<le> 1" by (auto simp: get_close_matches_def split: if_splits)
  with assms have "map snd (nlargest1 ?cs) = [x]" by (simp add: get_close_matches_Inr)
  then have ne: "?cs \<noteq> []" and x: "x = snd (py_max_go (hd ?cs) (tl ?cs))"
    by (auto simp: nlargest1_def split: list.splits)
  from ne nlargest1_spec [of ?cs] have mem: "py_max_go (hd ?cs) (tl ?cs) \<in> set ?cs"
    and ge: "\<forall>y \<in> set ?cs. y \<le> py_max_go (hd ?cs) (tl ?cs)" by auto
  from mem x have "x \<in> set ps \<and> cutoff \<le> ratio x word \<and> py_max_go (hd ?cs) (tl ?cs) = (ratio x word, x)"
    by auto
  with ge show ?thesis by auto
qed

lemma get_close_matches_none:
  "0 \<le> cutoff \<Longrightarrow> cutoff \<le> 1 \<Longrightarrow>
     get_close_matches word ps cutoff = Inr [] \<longleftrightarrow> (\<forall>y \<in> set ps. ratio y word < cutoff)"
proof -
  assume "0 \<le> cutoff" "cutoff \<le> 1"
  have "map snd (nlargest1 xs) = [] \<longleftrightarrow> xs = []" for xs :: "(rat \<times> 'a list) list"
    by (cases xs) (auto simp: nlargest1_def)
  with \<open>0 \<le> cutoff\<close> \<open>cutoff \<le> 1\<close> show ?thesis
    by (simp add: get_close_matches_Inr filter_empty_conv not_le)
qed

lemma get_close_matches_at_most_one:
  "0 \<le> cutoff \<Longrightarrow> cutoff \<le> 1 \<Longrightarrow>
     \<exists>r. get_close_matches word ps cutoff = Inr r \<and> length r \<le> 1"
  by (auto simp: get_close_matches_Inr nlargest1_def split: list.splits)

subsection \<open>Main results on the matcher\<close>

text \<open>\<open>find_longest_match\<close>, as called by \<open>get_matching_blocks\<close> (with the index of
  \<open>b\<close> that \<open>set_seq2\<close> builds and ranges inside the sequences), returns either an
  empty match or a block \<open>a[i:i+k] == b[j:j+k]\<close> that lies inside \<open>a[alo:ahi]\<close> and
  \<open>b[blo:bhi]\<close>.\<close>

theorem find_longest_match_sound:
  assumes "ahi \<le> length a" and "bhi \<le> length b"
    and "find_longest_match a b (chain_b b) alo ahi blo bhi = (i, j, k)"
  shows "k = 0 \<or> (alo \<le> i \<and> i + k \<le> ahi \<and> blo \<le> j \<and> j + k \<le> bhi \<and>
           py_slice a i (i + k) = py_slice b j (j + k))"
proof (cases "k = 0")
  case False
  have ok: "best_ok a b alo ahi blo bhi (i, j, k)"
    using find_longest_match_ok [OF chain_b_sound [of b], where a = a and alo = alo and ahi = ahi
        and blo = blo and bhi = bhi] assms(3) by simp
  with False have "alo \<le> i \<and> i + k \<le> ahi \<and> blo \<le> j \<and> j + k \<le> bhi" and
    "\<forall>t<k. a ! (i + t) = b ! (j + t)" by (auto simp: best_ok_def)
  with assms(1,2) show ?thesis using py_slice_eq_block [of k a i b j] by auto
qed simp

theorem find_longest_match_sound_witness:
  "find_longest_match '' abcd'' ''abcd abcd'' (chain_b ''abcd abcd'') 0 5 0 9 = (0, 4, 5) \<and>
   py_slice '' abcd'' 0 5 = py_slice ''abcd abcd'' 4 9"
proof -
  have f: "find_longest_match '' abcd'' ''abcd abcd'' (chain_b ''abcd abcd'') 0 5 0 9 = (0, 4, 5)"
    by code_simp
  have "(5::nat) \<le> length '' abcd''" "(9::nat) \<le> length ''abcd abcd''" by simp_all
  from find_longest_match_sound [OF this f] f show ?thesis by simp
qed

text \<open>The stack-driven loop of \<open>get_matching_blocks\<close> finds the same blocks, as a
  multiset, as the divide and conquer written as plain recursion: the order in which the
  stack hands out the sub-ranges does not matter.\<close>

theorem matching_blocks_loop_rec:
  "mset (mb_loop a b [(0, length a, 0, length b)] []) = mset (mb_rec a b 0 (length a) 0 (length b))"
  by (simp add: mb_loop_mb_rec)

text \<open>The similarity score is a number between 0 and 1, and the two cheap scores
  really are upper bounds: \<open>0 \<le> ratio \<le> quick_ratio \<le> real_quick_ratio \<le> 1\<close>.\<close>

theorem ratio_chain:
  "0 \<le> ratio a b \<and> ratio a b \<le> quick_ratio a b \<and> quick_ratio a b \<le> real_quick_ratio a b \<and>
   real_quick_ratio a b \<le> 1"
proof -
  have "real_quick_ratio a b \<le> 1"
    unfolding real_quick_ratio_def by (rule calculate_ratio_bounds [THEN conjunct2]) simp
  with ratio_bounds [of a b] ratio_le_quick_ratio [of a b] quick_ratio_le_real_quick_ratio [of a b]
  show ?thesis by simp
qed

end
