(* ===== verification/Resolver.thy ===== *)
theory Resolver
  imports Knowledge Difflib
begin

text \<open>
  \<open>get_response(user_input)\<close>, lines 46--66 of \<open>src/offline_agent.py\<close>: the layered
  matcher over the knowledge store.  The input is lower-cased once; then, first match
  wins, (1) the first small-talk trigger that occurs in it gives its response, (2) the
  first topic with a keyword that occurs in it gives that topic's content, looked up
  with \<open>knowledge.get(topic, "Instructions not found, ...")\<close>, (3) the knowledge title
  closest to the whole input by \<open>difflib.get_close_matches(..., n=1, cutoff=0.4)\<close> gives
  its content, (4) otherwise a fixed apology.  The function reads the store and changes
  nothing.  Its result is \<open>py_exc + string\<close> because step (3) indexes
  \<open>knowledge[closest[0]]\<close> and \<open>get_close_matches\<close> may raise; the theorems show
  neither happens.
\<close>

definition not_found_msg :: string where
  "not_found_msg = ''Instructions not found, call emergency services.''"

definition default_msg :: string where
  "default_msg = ''Sorry, no instructions found. Call emergency services.''"

definition fuzzy_cutoff :: rat where
  "fuzzy_cutoff = 2 / 5"

text \<open>Step 1: \<open>for topic, response in small_talk.items(): if topic in user_input\<close>.\<close>

fun match_small_talk :: "(string, string) pydict \<Rightarrow> string \<Rightarrow> string option" where
  "match_small_talk [] user_input = None"
| "match_small_talk ((topic, response) # st) user_input =
     (if py_contains topic user_input then Some response else match_small_talk st user_input)"

text \<open>Step 2: the inner \<open>for key in keys: if key in user_input\<close> and the outer loop over
  \<open>keywords.items()\<close>; the result is the topic whose content is returned.\<close>

fun match_keys :: "string list \<Rightarrow> string \<Rightarrow> bool" where
  "match_keys [] user_input = False"
| "match_keys (key # keys) user_input = (py_contains key user_input \<or> match_keys keys user_input)"

fun match_keywords :: "(string, string list) pydict \<Rightarrow> string \<Rightarrow> string option" where
  "match_keywords [] user_input = None"
| "match_keywords ((topic, keys) # kws) user_input =
     (if match_keys keys user_input then Some topic else match_keywords kws user_input)"

definition get_response :: "kb \<Rightarrow> string \<Rightarrow> py_exc + string" where
  "get_response kb user_input0 =
     (let user_input = py_lower user_input0 in
      case match_small_talk (kb_small_talk kb) user_input of
        Some response \<Rightarrow> Inr response
      | None \<Rightarrow>
          (case match_keywords (kb_keywords kb) user_input of
             Some topic \<Rightarrow> Inr (dict_get_default (kb_knowledge kb) topic not_found_msg)
           | None \<Rightarrow>
               (case get_close_matches user_input (dict_keys (kb_knowledge kb)) fuzzy_cutoff of
                  Inl e \<Rightarrow> Inl e
                | Inr closest \<Rightarrow>
                    (case closest of
                       [] \<Rightarrow> Inr default_msg
                     | c # _ \<Rightarrow> dict_getitem (kb_knowledge kb) c))))"

text \<open>What \<open>get_response\<close> promises, stated without its loops: the response of the first
  trigger contained in the lower-cased input; else the content of the first topic one of
  whose keys is contained in it (or the not-found message); else the content of the title
  of greatest \<open>(ratio, title)\<close> among the titles whose ratio reaches 0.4; else the
  default message.\<close>

definition answer_spec :: "kb \<Rightarrow> string \<Rightarrow> string" where
  "answer_spec kb user_input0 =
     (let u = py_lower user_input0 in
      case find (\<lambda>(t, r). py_contains t u) (kb_small_talk kb) of
        Some (t, r) \<Rightarrow> r
      | None \<Rightarrow>
          (case find (\<lambda>(t, ks). \<exists>k \<in> set ks. py_contains k u) (kb_keywords kb) of
             Some (t, ks) \<Rightarrow> (case dict_get (kb_knowledge kb) t of Some c \<Rightarrow> c | None \<Rightarrow> not_found_msg)
           | None \<Rightarrow>
               (let cands = map (\<lambda>t. (ratio t u, t)) (filter (\<lambda>t. fuzzy_cutoff \<le> ratio t u) (dict_keys (kb_knowledge kb))) in
                if cands = [] then default_msg
                else the (dict_get (kb_knowledge kb) (snd (Max (set cands)))))))"

text \<open>A small store in the shape of the shipped data files, used by the examples below.\<close>

definition sample_kb :: kb where
  "sample_kb = \<lparr>kb_knowledge = [(''snakebite'', ''Keep the person still.''), (''burns'', ''Cool the burn under running water.'')],
     kb_keywords = [(''burns'', [''burn'', ''scald'']), (''snakebite'', [''snake bite'', ''bitten by a snake''])],
     kb_small_talk = [(''hello'', ''Hi! How can I help?''), (''thank'', ''You are welcome.'')]\<rparr>"

subsection \<open>The stages\<close>

lemma match_small_talk_None: "match_small_talk st u = None \<longleftrightarrow> (\<forall>(t, r) \<in> set st. \<not> py_contains t u)"
  by (induction st u rule: match_small_talk.induct) auto

lemma match_small_talk_first:
  "\<forall>(t', r') \<in> set pre. \<not> py_contains t' u \<Longrightarrow> py_contains t u \<Longrightarrow>
     match_small_talk (pre @ (t, r) # post) u = Some r"
  by (induction pre) auto

lemma match_keys_iff: "match_keys keys u \<longleftrightarrow> (\<exists>k \<in> set keys. py_contains k u)"
  by (induction keys) auto

lemma match_keywords_None:
  "match_keywords kws u = None \<longleftrightarrow> (\<forall>(t, ks) \<in> set kws. \<forall>k \<in> set ks. \<not> py_contains k u)"
  by (induction kws u rule: match_keywords.induct) (auto simp: match_keys_iff)

lemma match_keywords_first:
  "\<forall>(t', ks) \<in> set pre. \<forall>k \<in> set ks. \<not> py_contains k u \<Longrightarrow> \<exists>k \<in> set keys. py_contains k u \<Longrightarrow>
     match_keywords (pre @ (topic, keys) # post) u = Some topic"
  by (induction pre) (auto simp: match_keys_iff)

lemma fuzzy_cutoff_range: "0 \<le> fuzzy_cutoff" "fuzzy_cutoff \<le> 1"
  by (simp_all add: fuzzy_cutoff_def)

lemma get_response_fuzzy_step:
  assumes "match_small_talk (kb_small_talk kb) (py_lower u) = None"
    and "match_keywords (kb_keywords kb) (py_lower u) = None"
  shows "get_response kb u =
    (case get_close_matches (py_lower u) (dict_keys (kb_knowledge kb)) fuzzy_cutoff of
       Inl e \<Rightarrow> Inl e
     | Inr closest \<Rightarrow> (case closest of [] \<Rightarrow> Inr default_msg | c # _ \<Rightarrow> dict_getitem (kb_knowledge kb) c))"
  using assms by (simp add: get_response_def Let_def)

lemma close_match_in_keys:
  assumes "get_close_matches w (dict_keys d) fuzzy_cutoff = Inr (c # cs)"
  shows "cs = [] \<and> dict_getitem d c = Inr (the (dict_get d c)) \<and> dict_get d c \<noteq> None"
proof -
  from get_close_matches_at_most_one [OF fuzzy_cutoff_range, of w "dict_keys d"] assms
  have "cs = []" by auto
  with assms get_close_matches_best have "c \<in> set (dict_keys d)" by fastforce
  with \<open>cs = []\<close> show ?thesis using dict_get_key_Some [of c d] by (auto simp: dict_getitem_key)
qed

lemma match_small_talk_find: "match_small_talk st u = map_option snd (find (\<lambda>(t, r). py_contains t u) st)"
  by (induction st u rule: match_small_talk.induct) auto

lemma match_keywords_find:
  "match_keywords kw u = map_option fst (find (\<lambda>(t, ks). \<exists>k \<in> set ks. py_contains k u) kw)"
  by (induction kw u rule: match_keywords.induct) (auto simp: match_keys_iff)

lemma dict_get_in_values: "dict_get d k = Some v \<Longrightarrow> v \<in> snd ` set d"
  by (auto simp: dict_get_def dest: map_of_SomeD intro: rev_image_eqI)

lemma match_small_talk_in_values: "match_small_talk st u = Some r \<Longrightarrow> r \<in> snd ` set st"
  by (induction st u rule: match_small_talk.induct) (auto split: if_splits)

lemma load_kb_knowledge_wf:
  "load_kb kd kwd std = Inr k \<Longrightarrow> \<forall>(t, c) \<in> set (kb_knowledge k). knowledge_entry_wf t c"
proof -
  assume "load_kb kd kwd std = Inr k"
  then obtain kn where kn: "load_knowledge kd = Inr kn" and k: "kb_knowledge k = kn"
    by (auto simp: load_kb_def split: sum.splits)
  from kn have "dict_wf kn \<and> (\<forall>(t, c) \<in> set kn. knowledge_entry_wf t c)"
    unfolding load_knowledge_def by (rule load_knowledge_loop_wf) simp_all
  with k show ?thesis by simp
qed

lemma py_lower_id: "(\<forall>c \<in> set k. \<not> py_is_upper c) \<Longrightarrow> py_lower k = k"
  by (induction k) (auto simp: py_lower_def py_lower_char_def)

lemma upper_key_dead: "py_lower k \<noteq> k \<Longrightarrow> \<not> py_contains k (py_lower u)"
proof
  assume "py_lower k \<noteq> k" and c: "py_contains k (py_lower u)"
  then obtain ch where ch: "ch \<in> set k" "py_is_upper ch" using py_lower_id by blast
  from c ch(1) have "ch \<in> set (py_lower u)" using py_contains_set by blast
  with ch(2) show False by (auto simp: py_lower_def py_lower_char_not_upper)
qed

lemma match_keys_filter_lower:
  "match_keys (filter (\<lambda>k. py_lower k = k) keys) (py_lower u) = match_keys keys (py_lower u)"
  by (induction keys) (auto dest: upper_key_dead)

lemma match_keywords_filter_lower:
  "match_keywords (map (\<lambda>(t, ks). (t, filter (\<lambda>k. py_lower k = k) ks)) kw) (py_lower u) =
   match_keywords kw (py_lower u)"
  by (induction kw) (auto simp: match_keys_filter_lower)

text \<open>Totality, in the form the adapters use.\<close>

lemma get_response_Inr_ex: "\<exists>r. get_response kb u = Inr r"
proof (cases "match_small_talk (kb_small_talk kb) (py_lower u) = None \<and> match_keywords (kb_keywords kb) (py_lower u) = None")
  case True
  obtain closest where cm: "get_close_matches (py_lower u) (dict_keys (kb_knowledge kb)) fuzzy_cutoff = Inr closest"
    using get_close_matches_at_most_one [OF fuzzy_cutoff_range] by blast
  show ?thesis
  proof (cases closest)
    case (Cons c cs)
    with cm close_match_in_keys show ?thesis using get_response_fuzzy_step True by fastforce
  qed (use cm get_response_fuzzy_step True in simp)
next
  case False
  then show ?thesis by (auto simp: get_response_def Let_def split: option.splits)
qed

lemma get_response_projr: "get_response kb u = Inr (projr (get_response kb u))"
  using get_response_Inr_ex [of kb u] by auto

lemma get_response_not_Inl: "get_response kb u \<noteq> Inl e"
  using get_response_projr [of kb u] by (metis sum.distinct(1))

text \<open>The sample store is what the loaders build from the corresponding file contents.\<close>

theorem sample_kb_loaded:
  "load_kb ''Snakebite:\<newline>Keep the person still.\<newline>\<newline>Burns:\<newline>Cool the burn under running water.\<newline>''
     ''burns: burn, scald\<newline>snakebite: snake bite, bitten by a snake\<newline>''
     ''Hello: Hi! How can I help?\<newline>thank: You are welcome.\<newline>'' = Inr sample_kb"
  by code_simp

subsection \<open>Main results\<close>

text \<open>C1: \<open>get_response\<close> is total: for every store and every input it returns a string
  and raises nothing.  The only raising operation, \<open>knowledge[closest[0]]\<close>, is safe
  because \<open>get_close_matches\<close> only returns titles of the store, and the cutoff 0.4 is
  a valid one.\<close>

theorem get_response_total: "\<exists>r. get_response kb u = Inr r"
  using get_response_projr [of kb u] by (rule exI)

text \<open>C2: Small talk comes first: when the first trigger, in the file's order, that
  occurs in the lower-cased input is \<open>t\<close>, the answer is \<open>t\<close>'s response, whatever
  keywords the input also contains.\<close>

theorem get_response_small_talk:
  assumes "kb_small_talk kb = pre @ (t, r) # post"
    and "\<forall>(t', r') \<in> set pre. \<not> py_contains t' (py_lower u)"
    and "py_contains t (py_lower u)"
  shows "get_response kb u = Inr r"
  using match_small_talk_first [OF assms(2,3), of r post] assms(1)
  by (simp add: get_response_def Let_def)

theorem get_response_small_talk_witness:
  "get_response sample_kb ''Hello, I got a burn'' = Inr ''Hi! How can I help?''"
proof -
  have 1: "kb_small_talk sample_kb = [] @ (''hello'', ''Hi! How can I help?'') # [(''thank'', ''You are welcome.'')]"
    by (simp add: sample_kb_def)
  have 2: "\<forall>(t', r') \<in> set []. \<not> py_contains t' (py_lower ''Hello, I got a burn'')" by simp
  have 3: "py_contains ''hello'' (py_lower ''Hello, I got a burn'')" by code_simp
  show ?thesis by (rule get_response_small_talk [OF 1 2 3])
qed

text \<open>C3: Keywords come second: when no trigger occurs in the lower-cased input and
  \<open>topic\<close> is the first topic, in the file's order, with a keyword occurring in it, the
  answer is \<open>knowledge.get(topic, "Instructions not found, call emergency services.")\<close>.\<close>

theorem get_response_keyword:
  assumes "\<forall>(t, r) \<in> set (kb_small_talk kb). \<not> py_contains t (py_lower u)"
    and "kb_keywords kb = pre @ (topic, keys) # post"
    and "\<forall>(t, ks) \<in> set pre. \<forall>k \<in> set ks. \<not> py_contains k (py_lower u)"
    and "\<exists>k \<in> set keys. py_contains k (py_lower u)"
  shows "get_response kb u = Inr (dict_get_default (kb_knowledge kb) topic not_found_msg)"
proof -
  from assms(1) have "match_small_talk (kb_small_talk kb) (py_lower u) = None"
    by (simp add: match_small_talk_None)
  moreover have "match_keywords (kb_keywords kb) (py_lower u) = Some topic"
    using match_keywords_first [OF assms(3,4)] assms(2) by simp
  ultimately show ?thesis by (simp add: get_response_def Let_def)
qed

theorem get_response_keyword_witness:
  "get_response sample_kb ''Snake bite, what to do'' = Inr ''Keep the person still.''"
proof -
  have 1: "\<forall>(t, r) \<in> set (kb_small_talk sample_kb). \<not> py_contains t (py_lower ''Snake bite, what to do'')"
    by code_simp
  have 2: "kb_keywords sample_kb = [(''burns'', [''burn'', ''scald''])] @ (''snakebite'', [''snake bite'', ''bitten by a snake'']) # []"
    by (simp add: sample_kb_def)
  have 3: "\<forall>(t, ks) \<in> set [(''burns'', [''burn'', ''scald''])]. \<forall>k \<in> set ks. \<not> py_contains k (py_lower ''Snake bite, what to do'')"
    by code_simp
  have 4: "\<exists>k \<in> set [''snake bite'', ''bitten by a snake'']. py_contains k (py_lower ''Snake bite, what to do'')"
    by code_simp
  have 5: "dict_get_default (kb_knowledge sample_kb) ''snakebite'' not_found_msg = ''Keep the person still.''"
    by code_simp
  show ?thesis using get_response_keyword [OF 1 2 3 4] 5 by simp
qed

text \<open>C4: The fuzzy fallback: when neither a trigger nor a keyword occurs and some title
  reaches similarity 0.4 with the whole lower-cased input, the answer is the content of a
  title that reaches 0.4 and is largest by the pair (similarity, title).\<close>

theorem get_response_fuzzy:
  assumes "\<forall>(t, r) \<in> set (kb_small_talk kb). \<not> py_contains t (py_lower u)"
    and "\<forall>(t, ks) \<in> set (kb_keywords kb). \<forall>k \<in> set ks. \<not> py_contains k (py_lower u)"
    and "\<exists>t \<in> set (dict_keys (kb_knowledge kb)). fuzzy_cutoff \<le> ratio t (py_lower u)"
  shows "\<exists>t c. get_response kb u = Inr c \<and> dict_get (kb_knowledge kb) t = Some c \<and>
           fuzzy_cutoff \<le> ratio t (py_lower u) \<and>
           (\<forall>t' \<in> set (dict_keys (kb_knowledge kb)). fuzzy_cutoff \<le> ratio t' (py_lower u) \<longrightarrow>
              (ratio t' (py_lower u), t') \<le> (ratio t (py_lower u), t))"
proof -
  let ?ks = "dict_keys (kb_knowledge kb)"
  obtain closest where cm: "get_close_matches (py_lower u) ?ks fuzzy_cutoff = Inr closest"
    using get_close_matches_at_most_one [OF fuzzy_cutoff_range] by blast
  have "closest \<noteq> []"
    using cm get_close_matches_none [OF fuzzy_cutoff_range, of "py_lower u" ?ks] assms(3) by force
  then obtain t cs where tc: "closest = t # cs" by (cases closest) auto
  with cm close_match_in_keys have cs: "cs = []" and gi: "dict_getitem (kb_knowledge kb) t = Inr (the (dict_get (kb_knowledge kb) t))"
    and some: "dict_get (kb_knowledge kb) t \<noteq> None" by blast+
  from cm tc cs have best: "t \<in> set ?ks \<and> fuzzy_cutoff \<le> ratio t (py_lower u) \<and>
      (\<forall>y \<in> set ?ks. fuzzy_cutoff \<le> ratio y (py_lower u) \<longrightarrow> (ratio y (py_lower u), y) \<le> (ratio t (py_lower u), t))"
    by (intro get_close_matches_best) simp
  have "get_response kb u = Inr (the (dict_get (kb_knowledge kb) t))"
    using assms(1,2) cm tc gi by (simp add: get_response_fuzzy_step match_small_talk_None match_keywords_None)
  with some best show ?thesis by auto
qed

theorem get_response_fuzzy_witness:
  "\<exists>t c. get_response sample_kb ''snakebit'' = Inr c \<and> dict_get (kb_knowledge sample_kb) t = Some c \<and>
     fuzzy_cutoff \<le> ratio t (py_lower ''snakebit'')"
proof -
  have 1: "\<forall>(t, r) \<in> set (kb_small_talk sample_kb). \<not> py_contains t (py_lower ''snakebit'')" by code_simp
  have 2: "\<forall>(t, ks) \<in> set (kb_keywords sample_kb). \<forall>k \<in> set ks. \<not> py_contains k (py_lower ''snakebit'')" by code_simp
  have 3: "\<exists>t \<in> set (dict_keys (kb_knowledge sample_kb)). fuzzy_cutoff \<le> ratio t (py_lower ''snakebit'')" by code_simp
  from get_response_fuzzy [OF 1 2 3] show ?thesis by blast
qed

text \<open>C5: The default: when neither a trigger nor a keyword occurs and every title has
  similarity below 0.4, the answer is the fixed apology.\<close>

theorem get_response_default:
  assumes "\<forall>(t, r) \<in> set (kb_small_talk kb). \<not> py_contains t (py_lower u)"
    and "\<forall>(t, ks) \<in> set (kb_keywords kb). \<forall>k \<in> set ks. \<not> py_contains k (py_lower u)"
    and "\<forall>t \<in> set (dict_keys (kb_knowledge kb)). ratio t (py_lower u) < fuzzy_cutoff"
  shows "get_response kb u = Inr default_msg"
proof -
  have "get_close_matches (py_lower u) (dict_keys (kb_knowledge kb)) fuzzy_cutoff = Inr []"
    using get_close_matches_none [OF fuzzy_cutoff_range] assms(3) by blast
  with assms(1,2) show ?thesis
    by (simp add: get_response_fuzzy_step match_small_talk_None match_keywords_None)
qed

theorem get_response_default_witness:
  "get_response sample_kb ''xyz'' = Inr default_msg"
proof -
  have 1: "\<forall>(t, r) \<in> set (kb_small_talk sample_kb). \<not> py_contains t (py_lower ''xyz'')" by code_simp
  have 2: "\<forall>(t, ks) \<in> set (kb_keywords sample_kb). \<forall>k \<in> set ks. \<not> py_contains k (py_lower ''xyz'')" by code_simp
  have 3: "\<forall>t \<in> set (dict_keys (kb_knowledge sample_kb)). ratio t (py_lower ''xyz'') < fuzzy_cutoff" by code_simp
  show ?thesis by (rule get_response_default [OF 1 2 3])
qed

text \<open>C14: The answer does not depend on the case of the input.\<close>

theorem get_response_case_insensitive: "get_response kb (py_lower u) = get_response kb u"
  by (simp add: get_response_def py_lower_idem)

subsection \<open>What the code does that the specification does not say\<close>

text \<open>An example of the tie-break: \<open>heapq.nlargest\<close> compares the pairs \<open>(score, title)\<close>, so between \<open>cup\<close> and \<open>cut\<close>, both at similarity 0.8 with \<open>cu\<close>, the answer is \<open>cut\<close>'s content although \<open>cup\<close> comes first in the file; the general statement is the \<open>Max\<close> in \<open>answer_spec\<close>.\<close>

lemma get_response_tie_break:
  "get_response \<lparr>kb_knowledge = [(''cup'', ''Cup care.''), (''cut'', ''Cut care.'')], kb_keywords = [], kb_small_talk = []\<rparr> ''cu''
     = Inr ''Cut care.''"
  by code_simp

text \<open>C29: Keyword topics are not lower-cased by the loader while knowledge titles are: for whatever files the store was loaded from, when no trigger occurs in the input and the keyword stage selects a topic written with a capital letter, the answer is the not-found message, never that topic's section.\<close>

theorem keyword_topic_case_not_found:
  assumes "load_kb knowledge_data keywords_data small_talk_data = Inr kb"
    and "match_small_talk (kb_small_talk kb) (py_lower u) = None"
    and "match_keywords (kb_keywords kb) (py_lower u) = Some topic"
    and "py_lower topic \<noteq> topic"
  shows "get_response kb u = Inr not_found_msg"
proof -
  have "dict_get (kb_knowledge kb) topic = None"
  proof (rule ccontr)
    assume "dict_get (kb_knowledge kb) topic \<noteq> None"
    then obtain c where "map_of (kb_knowledge kb) topic = Some c" by (auto simp: dict_get_def)
    then have "(topic, c) \<in> set (kb_knowledge kb)" by (rule map_of_SomeD)
    with load_kb_knowledge_wf [OF assms(1)] have "topic_key topic" by (auto simp: knowledge_entry_wf_def)
    with assms(4) show False by (simp add: topic_key_def)
  qed
  with assms(2,3) show ?thesis by (simp add: get_response_def Let_def dict_get_default_None)
qed

text \<open>C30: A keyword list that contains the empty keyword (which a keyword line ending in a comma produces) matches every input: whatever the input, unless a trigger occurs in it, the keyword stage answers, so neither the closest-title stage nor the default is ever reached.\<close>

theorem empty_keyword_matches_everything:
  assumes "(topic, keys) \<in> set (kb_keywords kb)" and "[] \<in> set keys"
    and "match_small_talk (kb_small_talk kb) (py_lower u) = None"
  shows "\<exists>t. match_keywords (kb_keywords kb) (py_lower u) = Some t \<and>
             get_response kb u = Inr (dict_get_default (kb_knowledge kb) t not_found_msg)"
proof -
  have "match_keywords (kb_keywords kb) (py_lower u) \<noteq> None"
  proof
    assume "match_keywords (kb_keywords kb) (py_lower u) = None"
    then have "\<forall>(t, ks) \<in> set (kb_keywords kb). \<forall>k \<in> set ks. \<not> py_contains k (py_lower u)"
      by (simp add: match_keywords_None)
    with assms(1,2) show False by fastforce
  qed
  then obtain t where "match_keywords (kb_keywords kb) (py_lower u) = Some t" by blast
  with assms(3) show ?thesis by (simp add: get_response_def Let_def)
qed

text \<open>C31: Keywords are not lower-cased either, while the input is, so a keyword containing a capital letter is dead: deleting every such keyword from the store changes no answer of \<open>get_response\<close>.\<close>

theorem keyword_upper_never_matches:
  "get_response (kb\<lparr>kb_keywords := map (\<lambda>(t, ks). (t, filter (\<lambda>k. py_lower k = k) ks)) (kb_keywords kb)\<rparr>) u =
   get_response kb u"
proof -
  let ?kb' = "kb\<lparr>kb_keywords := map (\<lambda>(t, ks). (t, filter (\<lambda>k. py_lower k = k) ks)) (kb_keywords kb)\<rparr>"
  have "kb_small_talk ?kb' = kb_small_talk kb" "kb_knowledge ?kb' = kb_knowledge kb"
    "match_keywords (kb_keywords ?kb') (py_lower u) = match_keywords (kb_keywords kb) (py_lower u)"
    by (simp_all add: match_keywords_filter_lower)
  then show ?thesis by (simp only: get_response_def Let_def)
qed


text \<open>C6: Equivalence with the declarative specification: \<open>get_response\<close> returns exactly \<open>answer_spec\<close>, the first-match and best-title description of its four stages; in particular the \<open>heapq.nlargest\<close> selection is the maximum of the \<open>(ratio, title)\<close> pairs.\<close>

theorem get_response_spec: "get_response kb u = Inr (answer_spec kb u)"
proof -
  let ?u = "py_lower u"
  let ?cands = "map (\<lambda>t. (ratio t ?u, t)) (filter (\<lambda>t. fuzzy_cutoff \<le> ratio t ?u) (dict_keys (kb_knowledge kb)))"
  show ?thesis
  proof (cases "match_small_talk (kb_small_talk kb) ?u = None \<and> match_keywords (kb_keywords kb) ?u = None")
    case False
    then show ?thesis
      by (auto simp: get_response_def answer_spec_def Let_def match_small_talk_find match_keywords_find
               dict_get_default_def dict_get_def split: option.splits prod.splits)
  next
    case True
    then have f1: "find (\<lambda>(t, r). py_contains t ?u) (kb_small_talk kb) = None"
      and f2: "find (\<lambda>(t, ks). \<exists>k \<in> set ks. py_contains k ?u) (kb_keywords kb) = None"
      by (simp_all add: match_small_talk_find match_keywords_find)
    have gcm: "get_close_matches ?u (dict_keys (kb_knowledge kb)) fuzzy_cutoff = Inr (map snd (nlargest1 ?cands))"
      by (rule get_close_matches_Inr [OF fuzzy_cutoff_range])
    have step: "get_response kb u =
      (case map snd (nlargest1 ?cands) of [] \<Rightarrow> Inr default_msg | c # _ \<Rightarrow> dict_getitem (kb_knowledge kb) c)"
      using get_response_fuzzy_step [of kb u] True gcm by simp
    have spec: "answer_spec kb u =
      (if ?cands = [] then default_msg else the (dict_get (kb_knowledge kb) (snd (Max (set ?cands)))))"
      using f1 f2 by (simp add: answer_spec_def Let_def)
    show ?thesis
    proof (cases "?cands = []")
      case True
      then show ?thesis using step spec by (simp add: nlargest1_def)
    next
      case False
      then have "get_close_matches ?u (dict_keys (kb_knowledge kb)) fuzzy_cutoff = Inr [snd (Max (set ?cands))]"
        using gcm by (simp add: nlargest1_Max)
      then have "dict_getitem (kb_knowledge kb) (snd (Max (set ?cands))) =
          Inr (the (dict_get (kb_knowledge kb) (snd (Max (set ?cands)))))"
        using close_match_in_keys by blast
      then show ?thesis using step spec False by (simp add: nlargest1_Max)
    qed
  qed
qed

text \<open>C13: Every answer comes from the data files or is one of the two fixed messages: a small-talk response, a knowledge content, the not-found message or the default message.\<close>

theorem answer_from_files:
  "get_response kb u = Inr r \<Longrightarrow>
   r \<in> snd ` set (kb_small_talk kb) \<union> snd ` set (kb_knowledge kb) \<union> {not_found_msg, default_msg}"
proof -
  assume g: "get_response kb u = Inr r"
  show ?thesis
  proof (cases "match_small_talk (kb_small_talk kb) (py_lower u) = None \<and> match_keywords (kb_keywords kb) (py_lower u) = None")
    case False
    then show ?thesis using g match_small_talk_in_values dict_get_in_values
      by (fastforce simp: get_response_def Let_def dict_get_default_def dict_get_def split: option.splits)
  next
    case True
    obtain cs where cm: "get_close_matches (py_lower u) (dict_keys (kb_knowledge kb)) fuzzy_cutoff = Inr cs"
      using get_close_matches_at_most_one [OF fuzzy_cutoff_range] by blast
    show ?thesis
    proof (cases cs)
      case Nil
      then show ?thesis using g cm get_response_fuzzy_step [of kb u] True by simp
    next
      case (Cons c cs')
      then have "dict_getitem (kb_knowledge kb) c = Inr (the (dict_get (kb_knowledge kb) c))"
        and "dict_get (kb_knowledge kb) c \<noteq> None"
        using close_match_in_keys cm by blast+
      then show ?thesis using g cm get_response_fuzzy_step [of kb u] True Cons dict_get_in_values
        by fastforce
    qed
  qed
qed

theorem answer_from_files_witness:
  "get_response sample_kb ''I was bitten by a snake'' = Inr ''Keep the person still.'' \<and>
   ''Keep the person still.'' \<in> snd ` set (kb_knowledge sample_kb)"
proof -
  have g: "get_response sample_kb ''I was bitten by a snake'' = Inr ''Keep the person still.''" by code_simp
  show ?thesis using answer_from_files [OF g] g by (simp add: sample_kb_def not_found_msg_def default_msg_def)
qed

theorem get_response_spec_witness:
  "answer_spec sample_kb ''How do I treat burns'' = ''Cool the burn under running water.'' \<and>
   get_response sample_kb ''How do I treat burns'' = Inr ''Cool the burn under running water.''"
proof -
  have a: "answer_spec sample_kb ''How do I treat burns'' = ''Cool the burn under running water.''" by code_simp
  show ?thesis using get_response_spec [of sample_kb "''How do I treat burns''"] a by simp
qed

theorem keyword_topic_case_not_found_witness:
  "load_kb ''Burns:\<newline>Cool it.'' ''Burns: burn'' '''' =
     Inr \<lparr>kb_knowledge = [(''burns'', ''Cool it.'')], kb_keywords = [(''Burns'', [''burn''])], kb_small_talk = []\<rparr> \<and>
   get_response \<lparr>kb_knowledge = [(''burns'', ''Cool it.'')], kb_keywords = [(''Burns'', [''burn''])], kb_small_talk = []\<rparr>
     ''I have a burn'' = Inr not_found_msg"
proof -
  have l: "load_kb ''Burns:\<newline>Cool it.'' ''Burns: burn'' '''' =
     Inr \<lparr>kb_knowledge = [(''burns'', ''Cool it.'')], kb_keywords = [(''Burns'', [''burn''])], kb_small_talk = []\<rparr>"
    by code_simp
  have m: "match_keywords (kb_keywords \<lparr>kb_knowledge = [(''burns'', ''Cool it.'')], kb_keywords = [(''Burns'', [''burn''])], kb_small_talk = []\<rparr>)
      (py_lower ''I have a burn'') = Some ''Burns''" by code_simp
  have u: "py_lower ''Burns'' \<noteq> ''Burns''" by code_simp
  show ?thesis using keyword_topic_case_not_found [OF l _ m u] l by simp
qed

theorem empty_keyword_matches_everything_witness:
  "load_kb ''Burns:\<newline>Cool it.\<newline>\<newline>Snakebite:\<newline>Keep still.'' ''burns: burn,\<newline>snakebite: snake bite'' '''' =
     Inr \<lparr>kb_knowledge = [(''burns'', ''Cool it.''), (''snakebite'', ''Keep still.'')],
          kb_keywords = [(''burns'', [''burn'', '''']), (''snakebite'', [''snake bite''])], kb_small_talk = []\<rparr> \<and>
   (\<exists>t. match_keywords [(''burns'', [''burn'', '''']), (''snakebite'', [''snake bite''])] (py_lower ''I was bitten'') = Some t \<and>
        get_response \<lparr>kb_knowledge = [(''burns'', ''Cool it.''), (''snakebite'', ''Keep still.'')],
          kb_keywords = [(''burns'', [''burn'', '''']), (''snakebite'', [''snake bite''])], kb_small_talk = []\<rparr> ''I was bitten'' =
        Inr (dict_get_default [(''burns'', ''Cool it.''), (''snakebite'', ''Keep still.'')] t not_found_msg))"
proof -
  have l: "load_kb ''Burns:\<newline>Cool it.\<newline>\<newline>Snakebite:\<newline>Keep still.'' ''burns: burn,\<newline>snakebite: snake bite'' '''' =
     Inr \<lparr>kb_knowledge = [(''burns'', ''Cool it.''), (''snakebite'', ''Keep still.'')],
          kb_keywords = [(''burns'', [''burn'', '''']), (''snakebite'', [''snake bite''])], kb_small_talk = []\<rparr>"
    by code_simp
  have e: "(''burns'', [''burn'', '''']) \<in> set (kb_keywords \<lparr>kb_knowledge = [(''burns'', ''Cool it.''), (''snakebite'', ''Keep still.'')],
          kb_keywords = [(''burns'', [''burn'', '''']), (''snakebite'', [''snake bite''])], kb_small_talk = []\<rparr>)" by simp
  have n: "[] \<in> set [''burn'', '''']" by simp
  show ?thesis using empty_keyword_matches_everything [OF e n] l by simp
qed

end
