(* ===== verification/SpeechQueue.thy ===== *)
theory SpeechQueue
  imports Prelude "HOL-Library.Sublist"
begin

text \<open>
  The speech side of \<open>src/offline_agent.py\<close>: the module-level \<open>queue.Queue\<close>
  \<open>speech_queue\<close> and flag \<open>is_speaking\<close> (lines 76--77), the daemon thread running
  \<open>speech_worker\<close> (lines 79--93), the producer \<open>speak\<close> (lines 95--96), and the
  shutdown \<open>on_closing\<close> (lines 178--180).  The threads interleave, so the model is a
  step function over scheduler events: a producer putting a text, the window closing,
  the worker taking the next item, the engine finishing an utterance, the engine raising,
  and the interpreter exiting.  \<open>speech_run\<close> runs a sequence of events; an event that
  cannot happen in a state (the worker is not waiting, the queue is empty) makes the run
  \<open>None\<close>.  The pyttsx3 engine is observed through \<open>played\<close>: the utterances whose
  \<open>engine.say(text); engine.runAndWait()\<close> has completed, in order.
\<close>

text \<open>Where the worker thread is: blocked in \<open>speech_queue.get()\<close>, inside
  \<open>runAndWait\<close> for a text, returned from the loop at the \<open>None\<close> sentinel, or dead
  because \<open>runAndWait\<close> raised (nothing in \<open>speech_worker\<close> catches it).\<close>

datatype worker_pc = WaitGet | Speaking string | Exited | Crashed string

record speech =
  queue :: "string option list"
  is_speaking :: bool
  worker :: worker_pc
  played :: "string list"
  unfinished_tasks :: nat
  closing :: bool
  alive :: bool

datatype speech_event = Speak string | Close | Get | Play | Fail | Exit

text \<open>Start-up: an empty queue and the worker thread started (line 93), waiting.\<close>

definition init_speech :: speech where
  "init_speech = \<lparr>queue = [], is_speaking = False, worker = WaitGet, played = [],
     unfinished_tasks = 0, closing = False, alive = True\<rparr>"

text \<open>\<open>Queue.put\<close> appends and counts an unfinished task.\<close>

definition queue_put :: "string option \<Rightarrow> speech \<Rightarrow> speech" where
  "queue_put x s = s\<lparr>queue := queue s @ [x], unfinished_tasks := Suc (unfinished_tasks s)\<rparr>"

definition speak :: "string \<Rightarrow> speech \<Rightarrow> speech" where
  "speak text s = queue_put (Some text) s"

text \<open>\<open>on_closing\<close>: put the sentinel, then \<open>root.destroy()\<close>, which ends
  \<open>mainloop\<close>; the script then ends and the interpreter may exit.\<close>

definition on_closing :: "speech \<Rightarrow> speech" where
  "on_closing s = (queue_put None s)\<lparr>closing := True\<rparr>"

text \<open>One pass of the \<open>while True\<close> loop of \<open>speech_worker\<close>, split at the blocking
  call: \<open>worker_get\<close> is \<open>text = speech_queue.get()\<close> with the sentinel test and
  \<open>is_speaking = True\<close>; \<open>worker_play\<close> is the completed \<open>runAndWait\<close> followed by
  \<open>is_speaking = False\<close> and \<open>task_done()\<close> (whose exception, were it raised, would
  end the thread); \<open>worker_fail\<close> is \<open>runAndWait\<close> raising, which ends the thread with
  \<open>is_speaking\<close> still set.\<close>

definition worker_get :: "speech \<Rightarrow> speech option" where
  "worker_get s =
     (case (worker s, queue s) of
        (WaitGet, None # q) \<Rightarrow> Some (s\<lparr>queue := q, worker := Exited\<rparr>)
      | (WaitGet, Some text # q) \<Rightarrow> Some (s\<lparr>queue := q, worker := Speaking text, is_speaking := True\<rparr>)
      | _ \<Rightarrow> None)"

text \<open>\<open>Queue.task_done\<close> raises \<open>ValueError\<close> when called more often than items were put.\<close>

definition queue_task_done :: "speech \<Rightarrow> py_exc + speech" where
  "queue_task_done s =
     (if unfinished_tasks s = 0 then Inl ValueError
      else Inr (s\<lparr>unfinished_tasks := unfinished_tasks s - 1\<rparr>))"

definition worker_play :: "speech \<Rightarrow> speech option" where
  "worker_play s =
     (case worker s of
        Speaking text \<Rightarrow>
          (let s1 = s\<lparr>played := played s @ [text], is_speaking := False\<rparr> in
           case queue_task_done s1 of
             Inr s2 \<Rightarrow> Some (s2\<lparr>worker := WaitGet\<rparr>)
           | Inl _ \<Rightarrow> Some (s1\<lparr>worker := Crashed text\<rparr>))
      | _ \<Rightarrow> None)"

definition worker_fail :: "speech \<Rightarrow> speech option" where
  "worker_fail s = (case worker s of Speaking text \<Rightarrow> Some (s\<lparr>worker := Crashed text\<rparr>) | _ \<Rightarrow> None)"

text \<open>Interpreter exit after the window closed: the daemon worker is killed wherever it
  is; nothing runs afterwards.\<close>

definition process_exit :: "speech \<Rightarrow> speech option" where
  "process_exit s = (if closing s then Some (s\<lparr>alive := False\<rparr>) else None)"

fun speech_step :: "speech \<Rightarrow> speech_event \<Rightarrow> speech option" where
  "speech_step s e =
     (if \<not> alive s then None
      else (case e of
              Speak text \<Rightarrow> Some (speak text s)
            | Close \<Rightarrow> Some (on_closing s)
            | Get \<Rightarrow> worker_get s
            | Play \<Rightarrow> worker_play s
            | Fail \<Rightarrow> worker_fail s
            | Exit \<Rightarrow> process_exit s))"

fun speech_run :: "speech \<Rightarrow> speech_event list \<Rightarrow> speech option" where
  "speech_run s [] = Some s"
| "speech_run s (e # es) = (case speech_step s e of None \<Rightarrow> None | Some s' \<Rightarrow> speech_run s' es)"

text \<open>The states some interleaving reaches from start-up.\<close>

inductive speech_reach :: "speech \<Rightarrow> bool" where
  start: "speech_reach init_speech"
| step: "speech_reach s \<Longrightarrow> speech_step s e = Some s' \<Longrightarrow> speech_reach s'"

text \<open>What the producers have put, in order (\<open>None\<close> for the sentinel), and the item the
  worker holds: the text being spoken or lost in a crash, or the sentinel it stopped at.\<close>

fun sent :: "speech_event list \<Rightarrow> string option list" where
  "sent [] = []"
| "sent (Speak text # es) = Some text # sent es"
| "sent (Close # es) = None # sent es"
| "sent (_ # es) = sent es"

fun held :: "worker_pc \<Rightarrow> string option list" where
  "held WaitGet = []"
| "held (Speaking text) = [Some text]"
| "held (Crashed text) = [Some text]"
| "held Exited = [None]"

text \<open>Whether the thread is between \<open>is_speaking = True\<close> and \<open>is_speaking = False\<close>.\<close>

fun busy :: "worker_pc \<Rightarrow> bool" where
  "busy (Speaking _) = True"
| "busy (Crashed _) = True"
| "busy _ = False"

text \<open>The invariant of the reachable states: the flag tells whether the worker is inside
  an utterance, every item put and not yet acknowledged by \<open>task_done\<close> is either queued
  or held by the worker, and the interpreter exits only after the window closed.\<close>

definition speech_inv :: "speech \<Rightarrow> bool" where
  "speech_inv s \<longleftrightarrow>
     is_speaking s = busy (worker s) \<and>
     unfinished_tasks s = length (queue s) + length (held (worker s)) \<and>
     (\<not> alive s \<longrightarrow> closing s)"

text \<open>The texts the worker speaks from a queue before it meets the sentinel, and the
  events of the worker thread alone doing so: a \<open>get\<close> and a completed utterance per
  text, and a last \<open>get\<close> that takes the sentinel.\<close>

fun pending_texts :: "string option list \<Rightarrow> string list" where
  "pending_texts [] = []"
| "pending_texts (None # _) = []"
| "pending_texts (Some text # q) = text # pending_texts q"

fun drain_events :: "string option list \<Rightarrow> speech_event list" where
  "drain_events [] = []"
| "drain_events (None # _) = [Get]"
| "drain_events (Some _ # q) = Get # Play # drain_events q"

text \<open>The worker thread on its own, as the loop it is: \<open>speech_queue.get()\<close> blocks while
  the queue is empty, so once the producers have stopped, a queue without the sentinel
  leaves the worker blocked forever; the loop is a \<open>partial_function\<close> whose value
  \<open>None\<close> is "never returns", and whose result is what the engine has spoken.\<close>

partial_function (option) speech_worker :: "string option list \<Rightarrow> string list \<Rightarrow> string list option" where
  "speech_worker q spoken =
     (case q of
        [] \<Rightarrow> speech_worker [] spoken
      | None # _ \<Rightarrow> Some spoken
      | Some text # rest \<Rightarrow> speech_worker rest (spoken @ [text]))"

subsection \<open>Runs, the invariant and the FIFO order\<close>

lemmas speech_ops = speak_def queue_put_def on_closing_def worker_get_def worker_play_def
  worker_fail_def process_exit_def queue_task_done_def

lemma speech_run_append:
  "speech_run s (es @ es') = (case speech_run s es of None \<Rightarrow> None | Some s' \<Rightarrow> speech_run s' es')"
  by (induction es arbitrary: s) (auto split: option.splits)

lemma speech_run_snoc:
  "speech_run s (es @ [e]) = (case speech_run s es of None \<Rightarrow> None | Some s' \<Rightarrow> speech_step s' e)"
  by (simp add: speech_run_append split: option.splits)

lemma sent_append: "sent (es @ es') = sent es @ sent es'"
  by (induction es rule: sent.induct) auto

lemma speech_inv_init: "speech_inv init_speech"
  by (simp add: speech_inv_def init_speech_def)

lemma speech_inv_step:
  assumes "speech_inv s" "speech_step s e = Some s'"
  shows "speech_inv s'"
  using assms
  by (cases e; cases "worker s"; cases "queue s")
     (auto simp: speech_inv_def speech_ops Let_def split: if_splits option.splits list.splits)

lemma speech_reach_inv: "speech_reach s \<Longrightarrow> speech_inv s"
  by (induction rule: speech_reach.induct) (auto intro: speech_inv_init speech_inv_step)

lemma speech_reach_run: "speech_reach s \<Longrightarrow> speech_run s es = Some s' \<Longrightarrow> speech_reach s'"
proof (induction es arbitrary: s)
  case (Cons e es)
  then show ?case by (auto simp del: speech_step.simps split: option.splits intro: speech_reach.step)
qed simp

lemma fifo_step:
  assumes "speech_inv s" "speech_step s e = Some s'"
  shows "map Some (played s') @ held (worker s') @ queue s' = map Some (played s) @ held (worker s) @ queue s @ sent [e]"
  using assms
  by (cases e; cases "worker s"; cases "queue s")
     (auto simp: speech_inv_def speech_ops Let_def split: if_splits option.splits list.splits)


lemma fifo_run:
  "speech_run init_speech es = Some s \<Longrightarrow>
   map Some (played s) @ held (worker s) @ queue s = sent es"
proof (induction es arbitrary: s rule: rev_induct)
  case Nil
  then show ?case by (auto simp: init_speech_def)
next
  case (snoc e es)
  then obtain s0 where r: "speech_run init_speech es = Some s0" and st: "speech_step s0 e = Some s"
    by (auto simp: speech_run_snoc simp del: speech_step.simps split: option.splits)
  have "speech_inv s0"
    using speech_reach_run [OF speech_reach.start r] by (rule speech_reach_inv)
  then show ?case
    using fifo_step [OF _ st] snoc.IH [OF r] by (simp add: sent_append)
qed

lemma run_frozen: "\<not> alive s \<Longrightarrow> speech_run s es = Some s' \<Longrightarrow> s' = s"
  by (cases es) auto

lemma drain:
  "speech_inv s \<Longrightarrow> alive s \<Longrightarrow> worker s = WaitGet \<Longrightarrow>
   \<exists>s'. speech_run s (drain_events (queue s)) = Some s' \<and>
        played s' = played s @ pending_texts (queue s) \<and>
        worker s' = (if None \<in> set (queue s) then Exited else WaitGet) \<and> alive s'"
proof (induction "queue s" arbitrary: s)
  case Nil
  then show ?case by (metis drain_events.simps(1) empty_iff empty_set pending_texts.simps(1) self_append_conv speech_run.simps(1))
next
  case (Cons x q)
  show ?case
  proof (cases x)
    case None
    then show ?thesis using Cons.hyps(2) [symmetric] Cons.prems
      by (simp add: speech_ops)
  next
    case (Some t)
    define s1 where "s1 = s\<lparr>queue := q, played := played s @ [t], is_speaking := False,
       unfinished_tasks := unfinished_tasks s - 1, worker := WaitGet\<rparr>"
    have inv1: "speech_inv s1" using Cons.prems Cons.hyps(2) [symmetric] Some
      by (auto simp: speech_inv_def s1_def)
    have run: "speech_run s (drain_events (queue s)) = speech_run s1 (drain_events q)"
      using Cons.prems Cons.hyps(2) [symmetric] Some
      by (auto simp: speech_ops s1_def speech_inv_def)
    obtain s' where "speech_run s1 (drain_events q) = Some s'"
      "played s' = played s1 @ pending_texts q"
      "worker s' = (if None \<in> set q then Exited else WaitGet)" "alive s'"
      using Cons.hyps(1) [of s1] inv1 Cons.prems by (auto simp: s1_def)
    then show ?thesis using run Cons.hyps(2) [symmetric] Some by (auto simp: s1_def)
  qed
qed

lemma pending_texts_sentinel: "None \<notin> set q \<Longrightarrow> map Some (pending_texts (q @ [None])) = q"
  by (induction q rule: pending_texts.induct) auto

lemma crashed_step:
  "worker s = Crashed t \<Longrightarrow> speech_step s e = Some s' \<Longrightarrow>
   worker s' = Crashed t \<and> played s' = played s \<and> is_speaking s' = is_speaking s"
  by (cases e) (auto simp: speech_ops split: if_splits)

lemma crashed_run:
  "worker s = Crashed t \<Longrightarrow> speech_run s es = Some s' \<Longrightarrow>
   worker s' = Crashed t \<and> played s' = played s \<and> is_speaking s' = is_speaking s"
proof (induction es arbitrary: s)
  case (Cons e es)
  then obtain s1 where "speech_step s e = Some s1" "speech_run s1 es = Some s'"
    by (auto simp del: speech_step.simps split: option.splits)
  with Cons show ?case using crashed_step by metis
qed simp

text \<open>\<open>speak\<close> on a live state is the producer's step.\<close>

lemma speak_inv: "speech_inv s \<Longrightarrow> alive s \<Longrightarrow> speech_inv (speak t s)"
  using speech_inv_step [of s "Speak t"] by simp

lemma speak_fields [simp]: "alive (speak t s) = alive s" "worker (speak t s) = worker s"
  "queue (speak t s) = queue s @ [Some t]" "played (speak t s) = played s"
  by (simp_all add: speak_def queue_put_def)

lemma pending_texts_map_Some [simp]: "pending_texts (map Some rs) = rs"
  by (induction rs) auto

text \<open>The worker loop's value, and the sentinel's origin.\<close>

lemma speech_worker_returns:
  "None \<in> set q \<Longrightarrow> speech_worker q spoken = Some (spoken @ pending_texts q)"
proof (induction q arbitrary: spoken)
  case (Cons x q)
  then show ?case by (cases x) (auto simp: speech_worker.simps)
qed simp

lemma speech_worker_Some_sentinel:
  assumes ret: "speech_worker q spoken = Some r"
  shows "None \<in> set q"
proof (rule speech_worker.raw_induct [where P = "\<lambda>q spoken r. None \<in> set q", OF _ ret])
  fix f q spoken r
  assume IH: "\<And>q spoken r. f q spoken = Some r \<Longrightarrow> None \<in> set q"
    and eq: "(case q of [] \<Rightarrow> f [] spoken | None # _ \<Rightarrow> Some spoken
              | Some text # rest \<Rightarrow> f rest (spoken @ [text])) = Some r"
  show "None \<in> set q"
  proof (cases q)
    case Nil
    with eq IH show ?thesis by fastforce
  next
    case (Cons x rest)
    with eq IH show ?thesis by (cases x) fastforce+
  qed
qed

lemma sentinel_closing:
  "speech_reach s \<Longrightarrow> (None \<in> set (queue s) \<longrightarrow> closing s) \<and> (worker s = Exited \<longrightarrow> closing s)"
proof (induction rule: speech_reach.induct)
  case start
  then show ?case by (simp add: init_speech_def)
next
  case (step s e s')
  then show ?case
    by (cases e; cases "worker s"; cases "queue s")
       (auto simp: speech_ops Let_def split: if_splits option.splits list.splits)
qed

lemma not_closing_no_sentinel:
  "speech_reach s \<Longrightarrow> \<not> closing s \<Longrightarrow> None \<notin> set (queue s) \<and> worker s \<noteq> Exited"
  using sentinel_closing by blast

text \<open>C7: FIFO, nothing lost and nothing duplicated: after any interleaving of producers, the window closing and the worker, the utterances played, then the item the worker holds, then the queue, are exactly the items put, in the order they were put.\<close>

theorem speech_fifo:
  "speech_run init_speech es = Some s \<Longrightarrow>
   map Some (played s) @ held (worker s) @ queue s = sent es"
  by (rule fifo_run)

text \<open>C18: In every reachable state the worker's \<open>speech_queue.task_done()\<close> after an utterance does not raise: the worker returns to waiting.\<close>

theorem task_done_never_raises:
  "speech_reach s \<Longrightarrow> worker_play s = Some s' \<Longrightarrow> worker s' = WaitGet"
  using speech_reach_inv [of s]
  by (auto simp: speech_inv_def worker_play_def queue_task_done_def Let_def split: worker_pc.splits)

text \<open>C15: Progress of the worker: from a reachable state where it waits, the worker alone plays every queued text up to the first sentinel, in order, and then exits at the sentinel or waits again.\<close>

theorem worker_drains:
  "speech_reach s \<Longrightarrow> alive s \<Longrightarrow> worker s = WaitGet \<Longrightarrow>
   \<exists>s'. speech_run s (drain_events (queue s)) = Some s' \<and>
        played s' = played s @ pending_texts (queue s) \<and>
        worker s' = (if None \<in> set (queue s) then Exited else WaitGet)"
  using drain [OF speech_reach_inv] by blast

text \<open>C22: Stop semantics: in a reachable state before the window has closed, and unless the engine has already raised (a failed engine silences the worker, as shown below), closing the window lets the worker finish the utterance in flight, if any, and play every text queued before the close, in order, and then leave its loop; this holds on the schedules where the interpreter outlives the worker, which \<open>on_closing\<close> does not ensure.\<close>

theorem close_then_drain:
  assumes "speech_reach s" "alive s" "\<not> closing s" "\<forall>t. worker s \<noteq> Crashed t"
  shows "\<exists>es s'. speech_run s (Close # es) = Some s' \<and> worker s' = Exited \<and>
     played s' = played s @ map the (held (worker s)) @ map the (queue s)"
proof -
  have ns: "None \<notin> set (queue s)" and ne: "worker s \<noteq> Exited"
    using not_closing_no_sentinel [OF assms(1,3)] by auto
  have r1: "speech_reach (on_closing s)"
    using speech_reach.step [OF assms(1), of Close] assms(2) by simp
  have pend: "pending_texts (q @ [None]) = map the q" if "None \<notin> set q" for q
    using that by (induction q rule: pending_texts.induct) auto
  show ?thesis
  proof (cases "worker s")
    case WaitGet
    obtain s' where "speech_run (on_closing s) (drain_events (queue s @ [None])) = Some s'"
        "played s' = played s @ pending_texts (queue s @ [None])" "worker s' = Exited"
      using drain [OF speech_reach_inv [OF r1]] assms(2) WaitGet
      by (auto simp: on_closing_def queue_put_def)
    then show ?thesis using assms(2) WaitGet pend [OF ns]
      by (intro exI [of _ "drain_events (queue s @ [None])"]) auto
  next
    case (Speaking t)
    have inv: "speech_inv (on_closing s)" by (rule speech_reach_inv [OF r1])
    define s2 where "s2 = (on_closing s)\<lparr>played := played s @ [t], is_speaking := False,
        unfinished_tasks := unfinished_tasks (on_closing s) - 1, worker := WaitGet\<rparr>"
    have play: "speech_step (on_closing s) Play = Some s2"
      using inv assms(2) Speaking
      by (simp add: worker_play_def queue_task_done_def speech_inv_def on_closing_def queue_put_def s2_def Let_def)
    have r2: "speech_reach s2" using speech_reach.step [OF r1 play] .
    obtain s' where "speech_run s2 (drain_events (queue s @ [None])) = Some s'"
        "played s' = played s2 @ pending_texts (queue s @ [None])" "worker s' = Exited"
      using drain [OF speech_reach_inv [OF r2]] assms(2)
      by (auto simp: s2_def on_closing_def queue_put_def)
    then show ?thesis using assms(2) Speaking pend [OF ns] play
      by (intro exI [of _ "Play # drain_events (queue s @ [None])"]) (auto simp: s2_def)
  qed (use ne assms(4) in auto)
qed

text \<open>C32: A failure of \<open>runAndWait\<close> kills the worker: once the engine raises in a reachable state, no later interleaving plays anything more, and \<open>is_speaking\<close> stays set, so every text still queued or put later is lost.  The spec asks for the failure to be caught and the queue to continue.\<close>

theorem crash_silences_worker:
  assumes "speech_reach s" "speech_step s Fail = Some s1" "speech_run s1 es = Some s'"
  shows "played s' = played s \<and> is_speaking s'"
proof -
  obtain t where w: "worker s = Speaking t" and s1: "s1 = s\<lparr>worker := Crashed t\<rparr>"
    using assms(2) by (auto simp: worker_fail_def split: if_splits worker_pc.splits)
  have "is_speaking s" using speech_reach_inv [OF assms(1)] w by (simp add: speech_inv_def)
  then show ?thesis using crashed_run [of s1 t es s'] assms(3) s1 by simp
qed

text \<open>An example of the shutdown race: \<open>on_closing\<close> does not join the worker, so the interpreter can exit with a text still queued, after which nothing runs.\<close>

lemma exit_loses_queued:
  "\<exists>s. speech_run init_speech [Speak text, Close, Exit] = Some s \<and>
       queue s = [Some text, None] \<and> played s = [] \<and> (\<forall>e. speech_step s e = None)"
  by (simp add: init_speech_def speech_ops)

text \<open>C21: Single flight: a step completes at most one utterance, and only the one the worker took from the queue.\<close>

theorem speech_single_flight:
  "speech_step s e = Some s' \<Longrightarrow>
   played s' = played s \<or> (\<exists>t. worker s = Speaking t \<and> played s' = played s @ [t])"
  by (cases e) (auto simp: speech_ops Let_def split: if_splits worker_pc.splits list.splits option.splits sum.splits)

lemma speech_reach_of_run:
  "speech_run init_speech es = Some s \<Longrightarrow> speech_reach s"
  by (rule speech_reach_run [OF speech_reach.start])

theorem speech_fifo_witness:
  "speech_run init_speech [Speak ''Apply pressure.'', Speak ''Call 911.'', Get, Play, Close] =
     Some (the (speech_run init_speech [Speak ''Apply pressure.'', Speak ''Call 911.'', Get, Play, Close])) \<and>
   map Some (played (the (speech_run init_speech [Speak ''Apply pressure.'', Speak ''Call 911.'', Get, Play, Close])))
   @ held (worker (the (speech_run init_speech [Speak ''Apply pressure.'', Speak ''Call 911.'', Get, Play, Close])))
   @ queue (the (speech_run init_speech [Speak ''Apply pressure.'', Speak ''Call 911.'', Get, Play, Close]))
   = [Some ''Apply pressure.'', Some ''Call 911.'', None]"
proof -
  have r: "speech_run init_speech [Speak ''Apply pressure.'', Speak ''Call 911.'', Get, Play, Close] =
     Some (the (speech_run init_speech [Speak ''Apply pressure.'', Speak ''Call 911.'', Get, Play, Close]))"
    by (simp add: init_speech_def speech_ops)
  show ?thesis using speech_fifo [OF r] r by simp
qed

theorem task_done_never_raises_witness:
  "speech_reach (the (speech_run init_speech [Speak ''Cool it.'', Get])) \<and>
   worker_play (the (speech_run init_speech [Speak ''Cool it.'', Get])) =
     Some (the (worker_play (the (speech_run init_speech [Speak ''Cool it.'', Get])))) \<and>
   worker (the (worker_play (the (speech_run init_speech [Speak ''Cool it.'', Get])))) = WaitGet"
proof -
  have r: "speech_run init_speech [Speak ''Cool it.'', Get] =
      Some (the (speech_run init_speech [Speak ''Cool it.'', Get]))"
    by (simp add: init_speech_def speech_ops)
  have p: "worker_play (the (speech_run init_speech [Speak ''Cool it.'', Get])) =
     Some (the (worker_play (the (speech_run init_speech [Speak ''Cool it.'', Get]))))"
    by (simp add: init_speech_def speech_ops)
  show ?thesis using task_done_never_raises [OF speech_reach_of_run [OF r] p] speech_reach_of_run [OF r] p
    by simp
qed

theorem worker_drains_witness:
  "speech_reach (the (speech_run init_speech [Speak ''a'', Speak ''b'', Close])) \<and>
   played (the (speech_run (the (speech_run init_speech [Speak ''a'', Speak ''b'', Close]))
                 [Get, Play, Get, Play, Get])) = [''a'', ''b''] \<and>
   worker (the (speech_run (the (speech_run init_speech [Speak ''a'', Speak ''b'', Close]))
                 [Get, Play, Get, Play, Get])) = Exited"
proof -
  have r: "speech_run init_speech [Speak ''a'', Speak ''b'', Close] =
      Some \<lparr>queue = [Some ''a'', Some ''b'', None], is_speaking = False, worker = WaitGet,
             played = [], unfinished_tasks = 3, closing = True, alive = True\<rparr>"
    by (simp add: init_speech_def speech_ops)
  show ?thesis
    using worker_drains [OF speech_reach_of_run [OF r]] speech_reach_of_run [OF r] r by auto
qed

theorem close_then_drain_witness:
  "\<exists>es s'. speech_run \<lparr>queue = [Some ''b''], is_speaking = True, worker = Speaking ''a'',
             played = [], unfinished_tasks = 2, closing = False, alive = True\<rparr> (Close # es) = Some s' \<and>
        worker s' = Exited \<and> played s' = [''a'', ''b'']"
proof -
  have r: "speech_run init_speech [Speak ''a'', Speak ''b'', Get] =
      Some \<lparr>queue = [Some ''b''], is_speaking = True, worker = Speaking ''a'',
             played = [], unfinished_tasks = 2, closing = False, alive = True\<rparr>"
    by (simp add: init_speech_def speech_ops)
  show ?thesis using close_then_drain [OF speech_reach_of_run [OF r]] by simp
qed

theorem crash_silences_worker_witness:
  "speech_run \<lparr>queue = [Some ''b''], is_speaking = True, worker = Crashed ''a'',
             played = [], unfinished_tasks = 2, closing = False, alive = True\<rparr> [Close] =
     Some \<lparr>queue = [Some ''b'', None], is_speaking = True, worker = Crashed ''a'',
             played = [], unfinished_tasks = 3, closing = True, alive = True\<rparr> \<and>
   played \<lparr>queue = [Some ''b'', None], is_speaking = True, worker = Crashed ''a'',
             played = [], unfinished_tasks = 3, closing = True, alive = True\<rparr> = []"
proof -
  have r: "speech_run init_speech [Speak ''a'', Speak ''b'', Get] =
      Some \<lparr>queue = [Some ''b''], is_speaking = True, worker = Speaking ''a'',
             played = [], unfinished_tasks = 2, closing = False, alive = True\<rparr>"
    by (simp add: init_speech_def speech_ops)
  have f: "speech_step \<lparr>queue = [Some ''b''], is_speaking = True, worker = Speaking ''a'',
             played = [], unfinished_tasks = 2, closing = False, alive = True\<rparr> Fail =
     Some \<lparr>queue = [Some ''b''], is_speaking = True, worker = Crashed ''a'',
             played = [], unfinished_tasks = 2, closing = False, alive = True\<rparr>"
    by (simp add: speech_ops)
  have c: "speech_run \<lparr>queue = [Some ''b''], is_speaking = True, worker = Crashed ''a'',
             played = [], unfinished_tasks = 2, closing = False, alive = True\<rparr> [Close] =
     Some \<lparr>queue = [Some ''b'', None], is_speaking = True, worker = Crashed ''a'',
             played = [], unfinished_tasks = 3, closing = True, alive = True\<rparr>"
    by (simp add: speech_ops)
  show ?thesis using crash_silences_worker [OF speech_reach_of_run [OF r] f c] c by simp
qed

theorem speech_single_flight_witness:
  "speech_step \<lparr>queue = [], is_speaking = True, worker = Speaking ''a'',
             played = [], unfinished_tasks = 1, closing = False, alive = True\<rparr> Play =
     Some \<lparr>queue = [], is_speaking = False, worker = WaitGet,
             played = [''a''], unfinished_tasks = 0, closing = False, alive = True\<rparr> \<and>
   worker \<lparr>queue = [], is_speaking = True, worker = Speaking ''a'',
             played = [], unfinished_tasks = 1, closing = False, alive = True\<rparr> = Speaking ''a''"
proof -
  have r: "speech_step \<lparr>queue = [], is_speaking = True, worker = Speaking ''a'',
             played = [], unfinished_tasks = 1, closing = False, alive = True\<rparr> Play =
     Some \<lparr>queue = [], is_speaking = False, worker = WaitGet,
             played = [''a''], unfinished_tasks = 0, closing = False, alive = True\<rparr>"
    by (simp add: speech_ops)
  show ?thesis using speech_single_flight [OF r] r by simp
qed

text \<open>C16: Termination of the worker loop: once the producers have stopped, \<open>speech_worker\<close> returns exactly when the sentinel is in the queue; without \<open>on_closing\<close> it blocks in \<open>get()\<close> for ever.\<close>

theorem speech_worker_terminates:
  "(\<exists>r. speech_worker q spoken = Some r) \<longleftrightarrow> None \<in> set q"
  using speech_worker_returns speech_worker_Some_sentinel by blast


text \<open>C19: Bounds on \<open>Queue.unfinished_tasks\<close>: in every reachable state it is at least the number of queued items and at most one more, the one item the worker has taken and not yet acknowledged.\<close>

theorem unfinished_tasks_bounds:
  "speech_reach s \<Longrightarrow> length (queue s) \<le> unfinished_tasks s \<and> unfinished_tasks s \<le> length (queue s) + 1"
proof -
  assume "speech_reach s"
  then have "speech_inv s" by (rule speech_reach_inv)
  moreover have "length (held w) \<le> 1" for w by (cases w) auto
  ultimately show ?thesis by (simp add: speech_inv_def)
qed

text \<open>C20: Type of the queue's items: the sentinel \<open>None\<close> is in the queue, or has been taken by the worker, only after the window has closed; before, every item is a text.\<close>

theorem sentinel_only_after_close:
  "speech_reach s \<Longrightarrow> None \<in> set (queue s) \<or> worker s = Exited \<Longrightarrow> closing s"
  using sentinel_closing by blast

theorem speech_worker_terminates_witness:
  "speech_worker [Some ''a'', Some ''b'', None] [] = Some [''a'', ''b''] \<and>
   speech_worker [Some ''a''] [] = None"
proof -
  have "\<not> (\<exists>r. speech_worker [Some ''a''] [] = Some r)"
    using speech_worker_terminates [of "[Some ''a'']" "[]"] by simp
  moreover have "speech_worker [Some ''a'', Some ''b'', None] [] = Some [''a'', ''b'']"
    using speech_worker_returns [of "[Some ''a'', Some ''b'', None]" "[]"] by simp
  ultimately show ?thesis by (cases "speech_worker [Some ''a''] []") auto
qed


theorem unfinished_tasks_bounds_witness:
  "speech_reach \<lparr>queue = [Some ''b''], is_speaking = True, worker = Speaking ''a'',
             played = [], unfinished_tasks = 2, closing = False, alive = True\<rparr> \<and>
   unfinished_tasks \<lparr>queue = [Some ''b''], is_speaking = True, worker = Speaking ''a'',
             played = [], unfinished_tasks = 2, closing = False, alive = True\<rparr> = 2"
proof -
  have r: "speech_run init_speech [Speak ''a'', Speak ''b'', Get] =
      Some \<lparr>queue = [Some ''b''], is_speaking = True, worker = Speaking ''a'',
             played = [], unfinished_tasks = 2, closing = False, alive = True\<rparr>"
    by (simp add: init_speech_def speech_ops)
  show ?thesis using unfinished_tasks_bounds [OF speech_reach_of_run [OF r]] speech_reach_of_run [OF r] by simp
qed

theorem sentinel_only_after_close_witness:
  "speech_reach \<lparr>queue = [None], is_speaking = False, worker = WaitGet,
             played = [], unfinished_tasks = 1, closing = True, alive = True\<rparr> \<and>
   closing \<lparr>queue = [None], is_speaking = False, worker = WaitGet,
             played = [], unfinished_tasks = 1, closing = True, alive = True\<rparr>"
proof -
  have r: "speech_run init_speech [Close] =
      Some \<lparr>queue = [None], is_speaking = False, worker = WaitGet,
             played = [], unfinished_tasks = 1, closing = True, alive = True\<rparr>"
    by (simp add: init_speech_def speech_ops)
  show ?thesis using sentinel_only_after_close [OF speech_reach_of_run [OF r]] speech_reach_of_run [OF r] by simp
qed

end
