(* ===== verification/Shell.thy ===== *)
theory Shell
  imports Resolver SpeechQueue
begin

text \<open>
  The adapters and the window of \<open>src/offline_agent.py\<close>: \<open>ask_question\<close> (lines
  101--109, the text adapter bound to the Ask button and to Return), \<open>_listen\<close> inside
  \<open>voice_input\<close> (lines 111--135, the voice adapter run on a fresh thread), the
  device choice \<open>mic_index if mic_index else None\<close> (line 115), and \<open>display_text\<close>
  (lines 137--141).  The widgets are observed through their contents: the text of the chat
  box, the text of the entry field, and the speech state of \<open>SpeechQueue\<close> that
  \<open>speak\<close> feeds.  The microphone and the recognition service are outside the program;
  what they return to \<open>_listen\<close> is the datatype \<open>listen_outcome\<close>, one constructor per
  way the \<open>try\<close> block ends.
\<close>

record shell =
  chat :: string
  entry :: string
  tts :: speech

text \<open>\<open>display_text\<close>: the chat box gets the text and a blank line; the
  \<open>config(state=...)\<close> toggles and the scrolling do not change the content.\<close>

definition display_text :: "string \<Rightarrow> shell \<Rightarrow> shell" where
  "display_text text st = st\<lparr>chat := chat st @ text @ ''\<newline>\<newline>''\<rparr>"

text \<open>The three lines shared by both adapters (lines 106--108 and 131--133): resolve,
  show the answer, queue it for speech.  An exception of \<open>get_response\<close> would end the
  callback here; \<open>Resolver.get_response_total\<close> shows that it does not happen.\<close>

definition respond :: "kb \<Rightarrow> string \<Rightarrow> shell \<Rightarrow> shell" where
  "respond kb user_input st =
     (case get_response kb user_input of
        Inl _ \<Rightarrow> st
      | Inr response \<Rightarrow>
          (let st1 = display_text (''AI:\<newline>'' @ response) st in st1\<lparr>tts := speak response (tts st1)\<rparr>))"

definition ask_question :: "kb \<Rightarrow> shell \<Rightarrow> shell" where
  "ask_question kb st =
     (let user_input = entry st in
      if py_strip user_input = [] then st
      else
        (let st1 = respond kb user_input (display_text (''You: '' @ user_input) st) in
         st1\<lparr>entry := []\<rparr>))"

text \<open>Device choice: \<open>mic_var\<close> is an \<open>IntVar\<close> starting at 0, and 0 is falsy.\<close>

definition mic_device :: "int \<Rightarrow> int option" where
  "mic_device mic_index = (if mic_index \<noteq> 0 then Some mic_index else None)"

text \<open>The window as built (lines 146--154): an empty chat box and an empty entry, next to
  the speech state at start-up.\<close>

definition init_shell :: shell where
  "init_shell = \<lparr>chat = [], entry = [], tts = init_speech\<rparr>"

text \<open>Microphone selection (lines 169--172): \<open>mic_var\<close> starts at 0 and, when
  \<open>list_microphone_names()\<close> is not empty, an option menu offers the indices
  \<open>range(len(mic_list))\<close>; with no microphone no menu is shown and \<open>mic_var\<close> stays 0.\<close>

definition mic_var_init :: int where
  "mic_var_init = 0"

definition mic_menu :: "'a list \<Rightarrow> int list option" where
  "mic_menu mic_list = (if mic_list \<noteq> [] then Some (map int [0..<length mic_list]) else None)"

text \<open>How the \<open>try\<close> block of \<open>_listen\<close> ends: \<open>sr.Microphone(...)\<close> raising on
  entry (before \<open>Listening...\<close> is shown), \<open>recognize_google\<close> returning a text or
  raising \<open>UnknownValueError\<close> or \<open>RequestError\<close>, or any other exception after the
  device opened; the message of an exception is its \<open>str\<close>.\<close>

datatype listen_outcome =
    OpenFailed string
  | Heard string
  | Unintelligible
  | ServiceError
  | Failed string

definition listen :: "kb \<Rightarrow> listen_outcome \<Rightarrow> shell \<Rightarrow> shell" where
  "listen kb outcome st =
     (case outcome of
        OpenFailed e \<Rightarrow> display_text (''Mic error: '' @ e) st
      | Heard user_input \<Rightarrow>
          respond kb user_input (display_text (''You: '' @ user_input) (display_text ''Listening...'' st))
      | Unintelligible \<Rightarrow> display_text ''Could not understand audio.'' (display_text ''Listening...'' st)
      | ServiceError \<Rightarrow> display_text ''Speech recognition error.'' (display_text ''Listening...'' st)
      | Failed e \<Rightarrow> display_text (''Mic error: '' @ e) (display_text ''Listening...'' st))"

subsection \<open>Behaviour of the adapters\<close>

lemma respond_Inr:
  "get_response kb u = Inr r \<Longrightarrow>
   respond kb u st = st\<lparr>chat := chat st @ ''AI:\<newline>'' @ r @ ''\<newline>\<newline>'', tts := speak r (tts st)\<rparr>"
  by (simp add: respond_def display_text_def)

text \<open>\<open>ask_question\<close> by cases, the form the properties below and the session model use.\<close>

lemma ask_question_eq:
  "ask_question kb st =
     (if py_strip (entry st) = [] then st
      else (case get_response kb (entry st) of
              Inl _ \<Rightarrow> st\<lparr>chat := chat st @ ''You: '' @ entry st @ ''\<newline>\<newline>'', entry := []\<rparr>
            | Inr r \<Rightarrow> \<lparr>chat = chat st @ ''You: '' @ entry st @ ''\<newline>\<newline>'' @ ''AI:\<newline>'' @ r @ ''\<newline>\<newline>'',
                       entry = [], tts = speak r (tts st)\<rparr>))"
  by (simp add: ask_question_def respond_def display_text_def Let_def split: sum.splits)

text \<open>C26: The text adapter ignores an entry that is empty or only whitespace: nothing is shown, resolved, spoken or cleared.\<close>

theorem ask_blank_ignored: "py_strip (entry st) = [] \<Longrightarrow> ask_question kb st = st"
  by (simp add: ask_question_def)

text \<open>C25: On a non-blank entry the text adapter shows the question, then the answer, queues exactly that answer for speech, and clears the entry; so the displayed and the spoken order agree for each request.\<close>

theorem ask_question_answers:
  "py_strip (entry st) \<noteq> [] \<Longrightarrow> get_response kb (entry st) = Inr r \<Longrightarrow>
   ask_question kb st =
     \<lparr>chat = chat st @ ''You: '' @ entry st @ ''\<newline>\<newline>'' @ ''AI:\<newline>'' @ r @ ''\<newline>\<newline>'',
      entry = [], tts = speak r (tts st)\<rparr>"
  by (simp add: ask_question_def respond_Inr display_text_def)

text \<open>C28: A failed voice capture (device, unintelligible audio, service error, other exception) does not consult the store and queues nothing: it only shows its message.\<close>

theorem listen_failure_no_answer:
  "(\<forall>u. outcome \<noteq> Heard u) \<Longrightarrow>
   listen kb outcome st = listen kb' outcome st \<and> tts (listen kb outcome st) = tts st \<and>
   entry (listen kb outcome st) = entry st"
  by (cases outcome) (auto simp: listen_def display_text_def)

text \<open>C27: The voice adapter handles a transcript exactly as the text adapter handles the same text typed into the entry (after the \<open>Listening...\<close> line, and leaving the entry alone) if and only if the transcript is not blank: \<open>_listen\<close> has no blank check, so a blank transcript, which the text adapter would ignore, is shown and answered.\<close>

theorem voice_like_text:
  "listen kb (Heard u) st =
     (ask_question kb ((display_text ''Listening...'' st)\<lparr>entry := u\<rparr>))\<lparr>entry := entry st\<rparr>
   \<longleftrightarrow> py_strip u \<noteq> []"
proof (cases "py_strip u = []")
  case True
  obtain r where r: "get_response kb u = Inr r" using get_response_Inr_ex by blast
  have "chat (listen kb (Heard u) st) \<noteq> chat (display_text ''Listening...'' st)"
    using r by (simp add: listen_def respond_def display_text_def)
  then show ?thesis using True by (auto simp: ask_question_def)
next
  case False
  then show ?thesis
    by (simp add: listen_def ask_question_def respond_def display_text_def Let_def split: sum.splits)
qed

theorem ask_blank_ignored_witness:
  "py_strip (entry \<lparr>chat = [], entry = '' \<newline>'', tts = init_speech\<rparr>) = [] \<and>
   ask_question sample_kb \<lparr>chat = [], entry = '' \<newline>'', tts = init_speech\<rparr> =
     \<lparr>chat = [], entry = '' \<newline>'', tts = init_speech\<rparr>"
proof -
  have b: "py_strip (entry \<lparr>chat = [], entry = '' \<newline>'', tts = init_speech\<rparr>) = []" by code_simp
  show ?thesis using ask_blank_ignored [OF b] b by simp
qed

theorem ask_question_answers_witness:
  "ask_question sample_kb \<lparr>chat = [], entry = ''I got a burn'', tts = init_speech\<rparr> =
     \<lparr>chat = ''You: I got a burn\<newline>\<newline>AI:\<newline>Cool the burn under running water.\<newline>\<newline>'',
      entry = [], tts = speak ''Cool the burn under running water.'' init_speech\<rparr>"
proof -
  have b: "py_strip (entry \<lparr>chat = [], entry = ''I got a burn'', tts = init_speech\<rparr>) \<noteq> []" by code_simp
  have r: "get_response sample_kb (entry \<lparr>chat = [], entry = ''I got a burn'', tts = init_speech\<rparr>) =
     Inr ''Cool the burn under running water.''" by code_simp
  show ?thesis using ask_question_answers [OF b r] by simp
qed

theorem listen_failure_no_answer_witness:
  "listen sample_kb ServiceError \<lparr>chat = [], entry = [], tts = init_speech\<rparr> =
     \<lparr>chat = ''Listening...\<newline>\<newline>Speech recognition error.\<newline>\<newline>'', entry = [], tts = init_speech\<rparr> \<and>
   tts (listen sample_kb ServiceError \<lparr>chat = [], entry = [], tts = init_speech\<rparr>) = init_speech"
proof -
  have "\<forall>u. ServiceError \<noteq> Heard u" by simp
  from listen_failure_no_answer [OF this, of sample_kb "\<lparr>chat = [], entry = [], tts = init_speech\<rparr>" sample_kb]
  show ?thesis by (simp add: listen_def display_text_def)
qed

theorem voice_like_text_witness:
  "listen sample_kb (Heard '' '') init_shell \<noteq>
     (ask_question sample_kb ((display_text ''Listening...'' init_shell)\<lparr>entry := '' ''\<rparr>))\<lparr>entry := entry init_shell\<rparr>"
proof -
  have "py_strip '' '' = []" by code_simp
  then show ?thesis using voice_like_text [of sample_kb "'' ''" init_shell] by simp
qed


end
