(* ===== verification/VoiceThreads.thy ===== *)
theory VoiceThreads
  imports Shell
begin

text \<open>
  \<open>voice_input\<close> (lines 111--135) starts a new daemon thread for every press of the Speak
  button, and each thread runs \<open>_listen\<close> while the main thread keeps answering typed
  questions.  \<open>Shell.listen\<close> treats one capture as a single step; here a capture thread is
  split where other threads can run in between: opening the device and showing
  \<open>Listening...\<close> (lines 114--116, or the \<open>Mic error\<close> of a failed open, lines
  127--129), the end of the recognition with what it shows (lines 117--132), and the final
  \<open>speak(response)\<close> (line 133).  The state is the window with one program counter per
  capture thread started; the scheduler's choice is an \<open>app_event\<close>.
\<close>

datatype listen_pc = Opening | Capturing | Answered string | Finished

record app =
  ui :: shell
  listeners :: "listen_pc list"

datatype app_event =
    Ask string
  | VoiceStart
  | VoiceOpen nat "string option"
  | VoiceResult nat listen_outcome
  | VoiceSpeak nat

text \<open>\<open>voice_input\<close>: start a thread, which begins by opening the microphone.\<close>

definition voice_start :: "app \<Rightarrow> app" where
  "voice_start a = a\<lparr>listeners := listeners a @ [Opening]\<rparr>"

text \<open>Opening the device: \<open>None\<close> when \<open>sr.Microphone(...)\<close> opens, \<open>Some e\<close> when it
  raises \<open>e\<close>, which the last \<open>except\<close> reports before the thread returns.\<close>

definition voice_open :: "nat \<Rightarrow> string option \<Rightarrow> app \<Rightarrow> app option" where
  "voice_open i err a =
     (if i < length (listeners a) \<and> listeners a ! i = Opening then
        (case err of
           None \<Rightarrow> Some (a\<lparr>ui := display_text ''Listening...'' (ui a), listeners := (listeners a)[i := Capturing]\<rparr>)
         | Some e \<Rightarrow> Some (a\<lparr>ui := display_text (''Mic error: '' @ e) (ui a), listeners := (listeners a)[i := Finished]\<rparr>))
      else None)"

text \<open>The recognition ends: a transcript is shown with its answer, the answer is kept for
  the \<open>speak\<close> still to come; a failure shows its message and the thread returns.  An
  exception of \<open>get_response\<close> would end the thread after the \<open>You:\<close> line.\<close>

definition voice_result :: "kb \<Rightarrow> nat \<Rightarrow> listen_outcome \<Rightarrow> app \<Rightarrow> app option" where
  "voice_result kb i outcome a =
     (if i < length (listeners a) \<and> listeners a ! i = Capturing then
        (case outcome of
           OpenFailed e \<Rightarrow> None
         | Heard user_input \<Rightarrow>
             (let st1 = display_text (''You: '' @ user_input) (ui a) in
              case get_response kb user_input of
                Inl _ \<Rightarrow> Some (a\<lparr>ui := st1, listeners := (listeners a)[i := Finished]\<rparr>)
              | Inr response \<Rightarrow>
                  Some (a\<lparr>ui := display_text (''AI:\<newline>'' @ response) st1,
                          listeners := (listeners a)[i := Answered response]\<rparr>))
         | Unintelligible \<Rightarrow>
             Some (a\<lparr>ui := display_text ''Could not understand audio.'' (ui a), listeners := (listeners a)[i := Finished]\<rparr>)
         | ServiceError \<Rightarrow>
             Some (a\<lparr>ui := display_text ''Speech recognition error.'' (ui a), listeners := (listeners a)[i := Finished]\<rparr>)
         | Failed e \<Rightarrow>
             Some (a\<lparr>ui := display_text (''Mic error: '' @ e) (ui a), listeners := (listeners a)[i := Finished]\<rparr>))
      else None)"

definition voice_speak :: "nat \<Rightarrow> app \<Rightarrow> app option" where
  "voice_speak i a =
     (if i < length (listeners a) then
        (case listeners a ! i of
           Answered response \<Rightarrow>
             Some (a\<lparr>ui := (ui a)\<lparr>tts := speak response (tts (ui a))\<rparr>, listeners := (listeners a)[i := Finished]\<rparr>)
         | _ \<Rightarrow> None)
      else None)"

text \<open>A typed question is a Tk callback on the main thread, run as one step.\<close>

fun app_step :: "kb \<Rightarrow> app \<Rightarrow> app_event \<Rightarrow> app option" where
  "app_step kb a (Ask q) = Some (a\<lparr>ui := ask_question kb ((ui a)\<lparr>entry := q\<rparr>)\<rparr>)"
| "app_step kb a VoiceStart = Some (voice_start a)"
| "app_step kb a (VoiceOpen i err) = voice_open i err a"
| "app_step kb a (VoiceResult i outcome) = voice_result kb i outcome a"
| "app_step kb a (VoiceSpeak i) = voice_speak i a"

fun app_run :: "kb \<Rightarrow> app \<Rightarrow> app_event list \<Rightarrow> app option" where
  "app_run kb a [] = Some a"
| "app_run kb a (e # es) = (case app_step kb a e of None \<Rightarrow> None | Some a' \<Rightarrow> app_run kb a' es)"

text \<open>The events of one capture thread, numbered \<open>i\<close>, running with no other thread
  in between, for the way its \<open>try\<close> block ends.\<close>

fun thread_events :: "nat \<Rightarrow> listen_outcome \<Rightarrow> app_event list" where
  "thread_events i (OpenFailed e) = [VoiceStart, VoiceOpen i (Some e)]"
| "thread_events i (Heard u) = [VoiceStart, VoiceOpen i None, VoiceResult i (Heard u), VoiceSpeak i]"
| "thread_events i outcome = [VoiceStart, VoiceOpen i None, VoiceResult i outcome]"

definition init_app :: app where
  "init_app = \<lparr>ui = init_shell, listeners = []\<rparr>"


text \<open>The answers an event produces (a typed question that is not blank, a transcript), the
  answer a thread holds between showing it and \<open>speak\<close>, and the answers queued for
  speech or still held.\<close>

fun answers_of :: "kb \<Rightarrow> app_event \<Rightarrow> string list" where
  "answers_of kb (Ask q) = (if py_strip q = [] then [] else [projr (get_response kb q)])"
| "answers_of kb (VoiceResult i (Heard u)) = [projr (get_response kb u)]"
| "answers_of kb _ = []"

fun pending_answer :: "listen_pc \<Rightarrow> string list" where
  "pending_answer (Answered r) = [r]"
| "pending_answer _ = []"

definition spoken_or_pending :: "app \<Rightarrow> string multiset" where
  "spoken_or_pending a = mset (map the (queue (tts (ui a)))) + mset (concat (map pending_answer (listeners a)))"

subsection \<open>Runs of the threads\<close>

lemma app_run_snoc:
  "app_run kb a (es @ [e]) = (case app_run kb a es of None \<Rightarrow> None | Some a' \<Rightarrow> app_step kb a' e)"
  by (induction es arbitrary: a) (auto split: option.splits)

lemma mset_concat_update:
  "i < length xs \<Longrightarrow>
   mset (concat (map f (xs[i := y]))) + mset (f (xs ! i)) = mset (concat (map f xs)) + mset (f y)"
proof (induction xs arbitrary: i)
  case (Cons x xs)
  then show ?case by (cases i) (auto simp: add_ac)
qed simp

lemma pending_update:
  "i < length ls \<Longrightarrow> pending_answer (ls ! i) = [] \<Longrightarrow>
   mset (concat (map pending_answer (ls[i := y]))) = mset (concat (map pending_answer ls)) + mset (pending_answer y)"
  using mset_concat_update [of i ls pending_answer y] by simp

lemma pending_update_Answered:
  "i < length ls \<Longrightarrow> ls ! i = Answered r \<Longrightarrow> pending_answer y = [] \<Longrightarrow>
   mset (concat (map pending_answer (ls[i := y]))) + {#r#} = mset (concat (map pending_answer ls))"
  using mset_concat_update [of i ls pending_answer y] by simp

lemma app_step_answers:
  assumes st: "app_step kb a e = Some a'"
  shows "spoken_or_pending a' = spoken_or_pending a + mset (answers_of kb e)"
proof (cases e)
  case (Ask q)
  then show ?thesis using st get_response_projr [of kb q]
    by (auto simp: spoken_or_pending_def ask_question_eq speak_def queue_put_def split: sum.splits)
next
  case VoiceStart
  then show ?thesis using st by (auto simp: spoken_or_pending_def voice_start_def)
next
  case (VoiceOpen i err)
  then show ?thesis using st
    by (auto simp: spoken_or_pending_def voice_open_def display_text_def pending_update split: if_splits option.splits)
next
  case (VoiceResult i outcome)
  then show ?thesis using st
    by (cases outcome)
       (auto simp: spoken_or_pending_def voice_result_def display_text_def pending_update Let_def get_response_not_Inl
         split: if_splits sum.splits)
next
  case (VoiceSpeak i)
  then show ?thesis using st pending_update_Answered [of i "listeners a" _ Finished]
    by (auto simp: spoken_or_pending_def voice_speak_def speak_def queue_put_def add_ac
         split: if_splits listen_pc.splits)
qed

text \<open>C24: A capture thread whose transcript is \<open>u\<close>, running with no other thread in between, shows \<open>Listening...\<close>, the transcript and \<open>get_response\<close>'s answer to it, in that order, queues exactly that answer for speech, leaves the entry alone and ends.\<close>

theorem capture_thread_answers:
  assumes "get_response kb u = Inr r"
  shows "app_run kb a (thread_events (length (listeners a)) (Heard u)) =
     Some \<lparr>ui = \<lparr>chat = chat (ui a) @ ''Listening...\<newline>\<newline>'' @ ''You: '' @ u @ ''\<newline>\<newline>'' @ ''AI:\<newline>'' @ r @ ''\<newline>\<newline>'',
                 entry = entry (ui a), tts = speak r (tts (ui a))\<rparr>,
           listeners = listeners a @ [Finished]\<rparr>"
  using assms
  by (simp add: voice_start_def voice_open_def voice_result_def voice_speak_def display_text_def Let_def)

text \<open>C23: Across threads no answer is lost or duplicated: after any interleaving of typed questions and capture threads, the answers queued for speech together with those a thread is about to speak are, as a multiset, exactly the answers the events produced.\<close>

theorem answers_spoken_once:
  "app_run kb init_app es = Some a \<Longrightarrow> spoken_or_pending a = mset (concat (map (answers_of kb) es))"
proof (induction es arbitrary: a rule: rev_induct)
  case Nil
  then show ?case by (auto simp: init_app_def init_shell_def init_speech_def spoken_or_pending_def)
next
  case (snoc e es)
  then obtain a0 where r: "app_run kb init_app es = Some a0" and st: "app_step kb a0 e = Some a"
    by (auto simp: app_run_snoc split: option.splits)
  show ?case using snoc.IH [OF r] app_step_answers [OF st] by simp
qed

text \<open>An example of the race between capture threads: with two captures in flight, the answer shown first can be spoken second, because a thread can show its answer and be overtaken before its \<open>speak\<close>.\<close>

lemma voice_answers_spoken_out_of_order:
  "app_run sample_kb init_app
     [VoiceStart, VoiceStart, VoiceOpen 0 None, VoiceOpen 1 None,
      VoiceResult 0 (Heard ''hello''), VoiceResult 1 (Heard ''i burned my hand''),
      VoiceSpeak 1, VoiceSpeak 0] \<noteq> None \<and>
   chat (ui (the (app_run sample_kb init_app
     [VoiceStart, VoiceStart, VoiceOpen 0 None, VoiceOpen 1 None,
      VoiceResult 0 (Heard ''hello''), VoiceResult 1 (Heard ''i burned my hand''),
      VoiceSpeak 1, VoiceSpeak 0]))) =
     ''Listening...\<newline>\<newline>Listening...\<newline>\<newline>You: hello\<newline>\<newline>AI:\<newline>Hi! How can I help?\<newline>\<newline>You: i burned my hand\<newline>\<newline>AI:\<newline>Cool the burn under running water.\<newline>\<newline>'' \<and>
   queue (tts (ui (the (app_run sample_kb init_app
     [VoiceStart, VoiceStart, VoiceOpen 0 None, VoiceOpen 1 None,
      VoiceResult 0 (Heard ''hello''), VoiceResult 1 (Heard ''i burned my hand''),
      VoiceSpeak 1, VoiceSpeak 0])))) =
     [Some ''Cool the burn under running water.'', Some ''Hi! How can I help?'']"
  by code_simp

theorem answers_spoken_once_witness:
  "spoken_or_pending (the (app_run sample_kb init_app
     [VoiceStart, Ask ''hello'', VoiceOpen 0 None, VoiceResult 0 (Heard ''i burned my hand'')])) =
   {#''Hi! How can I help?'', ''Cool the burn under running water.''#}"
proof -
  have n: "app_run sample_kb init_app
     [VoiceStart, Ask ''hello'', VoiceOpen 0 None, VoiceResult 0 (Heard ''i burned my hand'')] \<noteq> None"
    by code_simp
  then have r: "app_run sample_kb init_app
     [VoiceStart, Ask ''hello'', VoiceOpen 0 None, VoiceResult 0 (Heard ''i burned my hand'')] =
     Some (the (app_run sample_kb init_app
     [VoiceStart, Ask ''hello'', VoiceOpen 0 None, VoiceResult 0 (Heard ''i burned my hand'')]))" by auto
  have a: "mset (concat (map (answers_of sample_kb)
     [VoiceStart, Ask ''hello'', VoiceOpen 0 None, VoiceResult 0 (Heard ''i burned my hand'')])) =
     {#''Hi! How can I help?'', ''Cool the burn under running water.''#}"
    by code_simp
  show ?thesis using answers_spoken_once [OF r] a by simp
qed


theorem capture_thread_answers_witness:
  "app_run sample_kb init_app (thread_events 0 (Heard ''hello'')) =
     Some \<lparr>ui = \<lparr>chat = ''Listening...\<newline>\<newline>You: hello\<newline>\<newline>AI:\<newline>Hi! How can I help?\<newline>\<newline>'',
                 entry = [], tts = speak ''Hi! How can I help?'' init_speech\<rparr>,
           listeners = [Finished]\<rparr>"
proof -
  have r: "get_response sample_kb ''hello'' = Inr ''Hi! How can I help?''" by code_simp
  show ?thesis using capture_thread_answers [OF r, of init_app] by (simp add: init_app_def init_shell_def)
qed

end
