(* ===== verification/DataFormat.thy ===== *)
theory DataFormat
  imports Knowledge
begin

text \<open>
  The line formats of \<open>data/small_talk.txt\<close> and \<open>data/keywords.txt\<close> as the loaders of
  \<open>Knowledge\<close> read them: \<open>trigger: response\<close> and \<open>topic: key, key, ...\<close>, one entry
  per line.  The printers write a dictionary in that format; the round-trip theorems say
  which dictionaries the loaders read back unchanged from their printed form, and so which
  dictionaries the data files can express at all.
\<close>

definition small_talk_line :: "string \<Rightarrow> string \<Rightarrow> string" where
  "small_talk_line topic response = topic @ '': '' @ response"

definition print_small_talk :: "(string, string) pydict \<Rightarrow> string" where
  "print_small_talk st = concat (map (\<lambda>l. l @ ''\<newline>'') (map (\<lambda>(t, r). small_talk_line t r) st))"

definition keyword_line :: "string \<Rightarrow> string list \<Rightarrow> string" where
  "keyword_line topic keys = topic @ '':'' @ py_join '','' (map (\<lambda>k. CHR '' '' # k) keys)"

definition print_keywords :: "(string, string list) pydict \<Rightarrow> string" where
  "print_keywords kw = concat (map (\<lambda>l. l @ ''\<newline>'') (map (\<lambda>(t, ks). keyword_line t ks) kw))"

definition small_talk_printable :: "(string, string) pydict \<Rightarrow> bool" where
  "small_talk_printable st \<longleftrightarrow> dict_wf st \<and>
     (\<forall>(t, r) \<in> set st. small_talk_entry_wf t r \<and> CHR ''\<newline>'' \<notin> set t \<and> CHR ''\<newline>'' \<notin> set r)"

definition keywords_printable :: "(string, string list) pydict \<Rightarrow> bool" where
  "keywords_printable kw \<longleftrightarrow> dict_wf kw \<and>
     (\<forall>(t, ks) \<in> set kw. keyword_entry_wf t ks \<and> ks \<noteq> [] \<and> [] \<notin> set ks \<and>
        CHR ''\<newline>'' \<notin> set t \<and> (\<forall>k \<in> set ks. CHR ''\<newline>'' \<notin> set k))"

subsection \<open>Reading back one printed line\<close>

lemma hd_nonspace:
  "py_strip t = t \<Longrightarrow> \<not> py_isspace (hd (t @ CHR '':'' # x))"
  using stripped_ends [of t] by (cases t) auto

lemma strip_small_talk_line:
  assumes t: "py_strip t = t" and r: "py_strip r = r"
  shows "py_strip (small_talk_line t r @ ''\<newline>'') = t @ CHR '':'' # (if r = [] then [] else CHR '' '' # r)"
proof -
  have l: "py_lstrip (small_talk_line t r @ ''\<newline>'') = small_talk_line t r @ ''\<newline>''"
    using hd_nonspace [OF t, of "CHR '' '' # r @ ''\<newline>''"] by (intro py_lstrip_id) (simp add: small_talk_line_def)
  show ?thesis
  proof (cases "r = []")
    case True
    have "py_rstrip ((t @ '':'') @ '' \<newline>'') = py_rstrip (t @ '':'')" by (rule py_rstrip_append_space) simp
    also have "\<dots> = t @ '':''" by (rule py_rstrip_id) simp
    finally show ?thesis using l True by (simp add: py_strip_def small_talk_line_def)
  next
    case False
    have "py_rstrip ((t @ '': '' @ r) @ ''\<newline>'') = py_rstrip (t @ '': '' @ r)" by (rule py_rstrip_append_space) simp
    also have "\<dots> = t @ '': '' @ r" using stripped_ends [OF r] False by (intro py_rstrip_id) simp
    finally show ?thesis using l False by (simp add: py_strip_def small_talk_line_def)
  qed
qed

lemma parse_small_talk_line_print:
  assumes "small_talk_entry_wf t r"
  shows "parse_small_talk_line (small_talk_line t r @ ''\<newline>'') = Inr (Some (t, r))"
proof -
  from assms have t: "py_strip t = t" "py_lower t = t" "CHR '':'' \<notin> set t" and r: "py_strip r = r"
    by (auto simp: small_talk_entry_wf_def topic_key_def)
  have c: "py_contains '':'' (small_talk_line t r @ ''\<newline>'')"
    by (simp add: py_contains_single small_talk_line_def)
  have s: "py_strip (if r = [] then [] else CHR '' '' # r) = r"
    using r by (simp add: py_strip_Cons_space)
  show ?thesis using c s t
    by (simp add: parse_small_talk_line_def strip_small_talk_line [OF t(1) r] py_split_once_at)
qed

lemma parse_keyword_line_print:
  assumes "keyword_entry_wf t ks" "ks \<noteq> []" "[] \<notin> set ks"
  shows "parse_keyword_line (keyword_line t ks @ ''\<newline>'') = Inr (Some (t, ks))"
proof -
  let ?J = "py_join '','' (map (\<lambda>k. CHR '' '' # k) ks)"
  from assms have t: "py_strip t = t" "CHR '':'' \<notin> set t"
    and k: "\<forall>k \<in> set ks. py_strip k = k \<and> CHR '','' \<notin> set k"
    by (auto simp: keyword_entry_wf_def)
  have "last ks \<in> set ks" using assms(2) by simp
  then have lastk: "last ks \<noteq> [] \<and> py_strip (last ks) = last ks" using assms(3) k by auto
  have lastJ: "\<not> py_isspace (last ?J)"
    using last_py_join [of "map (\<lambda>k. CHR '' '' # k) ks" "'',''"] stripped_ends [of "last ks"] lastk assms(2)
    by (simp add: last_map)
  have J: "?J \<noteq> []" using py_join_nonempty [of "map (\<lambda>k. CHR '' '' # k) ks" "'',''"] assms(2) by (simp add: last_map)
  have "py_lstrip (keyword_line t ks @ ''\<newline>'') = keyword_line t ks @ ''\<newline>''"
    using hd_nonspace [OF t(1)] by (intro py_lstrip_id) (simp add: keyword_line_def)
  moreover have "py_rstrip (keyword_line t ks @ ''\<newline>'') = py_rstrip (keyword_line t ks)"
    by (rule py_rstrip_append_space) simp
  moreover have "py_rstrip (keyword_line t ks) = keyword_line t ks"
    using lastJ J by (intro py_rstrip_id) (simp add: keyword_line_def)
  ultimately have strip: "py_strip (keyword_line t ks @ ''\<newline>'') = t @ CHR '':'' # ?J"
    by (simp add: py_strip_def keyword_line_def)
  have split: "py_split '','' ?J = map (\<lambda>k. CHR '' '' # k) ks"
    using k assms(2) by (intro py_split_join) auto
  have keys: "map py_strip (map (\<lambda>k. CHR '' '' # k) ks) = ks"
    using k by (induction ks) (auto simp: py_strip_Cons_space)
  have c: "py_contains '':'' (keyword_line t ks @ ''\<newline>'')"
    by (simp add: py_contains_single keyword_line_def)
  show ?thesis using c t
    by (simp add: parse_keyword_line_def strip py_split_once_at split keys del: map_map)
qed

lemma small_talk_printable_lines:
  "small_talk_printable st \<Longrightarrow> \<forall>l \<in> set (map (\<lambda>(t, r). small_talk_line t r) st). CHR ''\<newline>'' \<notin> set l"
  by (auto simp: small_talk_printable_def small_talk_line_def)

subsection \<open>Round trips\<close>

text \<open>C11: Round trip of \<open>small_talk.txt\<close>: printing a small-talk dictionary whose triggers
  are lower-cased, stripped and free of \<open>":"\<close>, whose responses are stripped, and with no
  line breaks, and loading the text back gives the same dictionary, order included.\<close>

theorem small_talk_roundtrip:
  assumes "small_talk_printable st"
  shows "load_small_talk (print_small_talk st) = Inr st"
proof -
  have "load_small_talk (print_small_talk st) =
        load_lines_loop parse_small_talk_line [] (map (\<lambda>(t, r). small_talk_line t r @ ''\<newline>'') st)"
    using py_file_lines_concat [OF small_talk_printable_lines [OF assms]]
    by (simp add: load_small_talk_def print_small_talk_def comp_def case_prod_unfold)
  also have "\<dots> = Inr (dict_set_all [] st)"
    using assms by (intro load_lines_loop_map) (auto simp: small_talk_printable_def parse_small_talk_line_print)
  also have "dict_set_all [] st = st"
    using assms by (simp add: dict_set_all_fresh small_talk_printable_def dict_wf_def)
  finally show ?thesis .
qed

text \<open>C12: Round trip of \<open>keywords.txt\<close>: printing a keyword dictionary whose topics are
  stripped and free of \<open>":"\<close>, each with at least one keyword, every keyword non-empty,
  stripped and free of \<open>","\<close>, and loading the text back gives the same dictionary.  An
  empty keyword list is not expressible: its line reads back as the single empty keyword.\<close>

theorem keywords_roundtrip:
  assumes "keywords_printable kw"
  shows "load_keywords (print_keywords kw) = Inr kw"
proof -
  have lines: "\<forall>l \<in> set (map (\<lambda>(t, ks). keyword_line t ks) kw). CHR ''\<newline>'' \<notin> set l"
  proof
    fix l assume "l \<in> set (map (\<lambda>(t, ks). keyword_line t ks) kw)"
    then obtain t ks where tk: "(t, ks) \<in> set kw" and l: "l = keyword_line t ks" by auto
    have "set (py_join '','' (map (\<lambda>k. CHR '' '' # k) ks)) \<subseteq> {CHR '',''} \<union> \<Union> (set ` set (map (\<lambda>k. CHR '' '' # k) ks))"
      by (rule order_trans [OF set_py_join]) auto
    then show "CHR ''\<newline>'' \<notin> set l"
      using assms tk l by (fastforce simp: keywords_printable_def keyword_line_def)
  qed
  have "load_keywords (print_keywords kw) =
        load_lines_loop parse_keyword_line [] (map (\<lambda>(t, ks). keyword_line t ks @ ''\<newline>'') kw)"
    using py_file_lines_concat [OF lines]
    by (simp add: load_keywords_def print_keywords_def comp_def case_prod_unfold)
  also have "\<dots> = Inr (dict_set_all [] kw)"
    using assms by (intro load_lines_loop_map) (auto simp: keywords_printable_def parse_keyword_line_print)
  also have "dict_set_all [] kw = kw"
    using assms by (simp add: dict_set_all_fresh keywords_printable_def dict_wf_def)
  finally show ?thesis .
qed

theorem small_talk_roundtrip_witness:
  "print_small_talk [(''hello'', ''Hi! How can I help?''), (''thank'', ''You are welcome.'')] =
     ''hello: Hi! How can I help?\<newline>thank: You are welcome.\<newline>'' \<and>
   load_small_talk ''hello: Hi! How can I help?\<newline>thank: You are welcome.\<newline>'' =
     Inr [(''hello'', ''Hi! How can I help?''), (''thank'', ''You are welcome.'')]"
proof -
  have p: "small_talk_printable [(''hello'', ''Hi! How can I help?''), (''thank'', ''You are welcome.'')]"
    by code_simp
  have e: "print_small_talk [(''hello'', ''Hi! How can I help?''), (''thank'', ''You are welcome.'')] =
     ''hello: Hi! How can I help?\<newline>thank: You are welcome.\<newline>''"
    by (simp add: print_small_talk_def small_talk_line_def)
  show ?thesis using small_talk_roundtrip [OF p] e by simp
qed

theorem keywords_roundtrip_witness:
  "print_keywords [(''burns'', [''burn'', ''scald'']), (''snakebite'', [''snake bite''])] =
     ''burns: burn, scald\<newline>snakebite: snake bite\<newline>'' \<and>
   load_keywords ''burns: burn, scald\<newline>snakebite: snake bite\<newline>'' =
     Inr [(''burns'', [''burn'', ''scald'']), (''snakebite'', [''snake bite''])]"
proof -
  have p: "keywords_printable [(''burns'', [''burn'', ''scald'']), (''snakebite'', [''snake bite''])]"
    by code_simp
  have e: "print_keywords [(''burns'', [''burn'', ''scald'']), (''snakebite'', [''snake bite''])] =
     ''burns: burn, scald\<newline>snakebite: snake bite\<newline>''"
    by (simp add: print_keywords_def keyword_line_def)
  show ?thesis using keywords_roundtrip [OF p] e by simp
qed

end
