(* ===== verification/Spec2Isabelle.thy ===== *)
theory Spec2Isabelle
  imports VoiceThreads DataFormat
begin

text \<open>
  \<^bold>\<open>Smart First-Aid Assistant: a verification development of \<open>src/offline_agent.py\<close>.\<close>

  The program is one Python module.  At start-up it reads three data files into three
  dictionaries (\<^emph>\<open>KnowledgeStore\<close>, lines 12--41); \<open>get_response\<close> answers a question by
  small talk, then keywords, then the closest topic title by \<open>difflib\<close>, then a default
  (\<^emph>\<open>ResponseResolver\<close>, lines 46--66); answers are spoken by a single daemon thread
  that consumes a \<open>queue.Queue\<close> (\<^emph>\<open>SpeechQueue\<close>, lines 71--96 and 178--180); typed and
  spoken questions reach \<open>get_response\<close> through \<open>ask_question\<close> and \<open>voice_input\<close>
  (\<^emph>\<open>InputAdapters\<close>, lines 101--135), and every exchange is shown by \<open>display_text\<close>
  (\<^emph>\<open>PresentationShell\<close>, lines 137--141).

  \<^bold>\<open>Theories.\<close>
  \<^item> \<open>Prelude\<close>: Python exceptions (\<open>py_exc\<close>), the insertion-ordered \<open>dict\<close> as an
    association list (\<open>dict_set\<close>, \<open>dict_get\<close>, \<open>dict_get_default\<close>, \<open>dict_getitem\<close>
    returning \<open>Inl KeyError\<close>), indexing and slicing.  The order of a dictionary matters
    because the resolver's loops return the first match.
  \<^item> \<open>PyStr\<close>: the string built-ins the module calls (\<open>strip\<close>, \<open>lower\<close>, \<open>split\<close>,
    \<open>split(sep, 1)\<close>, \<open>join\<close>, \<open>replace\<close>, \<open>in\<close>, iteration over file lines) on 8-bit
    characters, with their algebra: \<open>py_join_split\<close> (round trip), \<open>py_contains_sublist\<close>
    (the substring test refines \<open>Sublist.sublist\<close>), idempotence of \<open>strip\<close> and \<open>lower\<close>.
  \<^item> \<open>Knowledge\<close>: the record \<open>kb\<close> of the three module globals and the loaders
    \<open>load_knowledge\<close>, \<open>load_keywords\<close>, \<open>load_small_talk\<close> and \<open>load_kb\<close>, from file
    contents to the store or a Python exception; the invariant \<open>kb_wf\<close>.  Results: loading
    never raises (C9) and yields a well-formed store (C10).
  \<^item> \<open>DataFormat\<close>: printers for the small-talk and keyword line formats and the round
    trips through the loaders (C11, C12), which also say which dictionaries the data files
    can express.
  \<^item> \<open>Difflib_Match\<close> and \<open>Difflib\<close>: \<open>SequenceMatcher\<close> with \<open>isjunk=None\<close> and
    \<open>autojunk=True\<close> (\<open>chain_b\<close>, \<open>find_longest_match\<close>, \<open>get_matching_blocks\<close>,
    \<open>ratio\<close>, \<open>quick_ratio\<close>, \<open>real_quick_ratio\<close>) and \<open>get_close_matches\<close> with \<open>n=1\<close>,
    translated from CPython's \<open>Lib/difflib.py\<close>; scores are exact rationals.  These are
    library code the module calls; they are proved correct as supporting lemmas:
    \<open>find_longest_match_sound\<close>, the stack loop equals the recursion
    (\<open>matching_blocks_loop_rec\<close>), \<open>quick_ratio_eq\<close> (multiset intersection),
    \<open>ratio_chain\<close> (\<open>0 \<le> ratio \<le> quick_ratio \<le> real_quick_ratio \<le> 1\<close>),
    \<open>close_candidates_ratio\<close> (the three-test cascade keeps exactly the words whose
    ratio reaches the cutoff), \<open>chain_b_eq\<close>, \<open>nlargest1_Max\<close>.
  \<^item> \<open>Resolver\<close>: \<open>get_response\<close> and its loops \<open>match_small_talk\<close>, \<open>match_keywords\<close>,
    and the declarative specification \<open>answer_spec\<close>.  Results: totality (C1), the four
    stages in their order (C2--C5), equivalence with \<open>answer_spec\<close> (C6), every answer
    comes from the files or is a fixed message (C13), case-insensitivity (C14), and the
    behaviours of the data format the spec does not intend (C29--C31); \<open>get_response_tie_break\<close> is an instance of the tie-break by title.
  \<^item> \<open>SpeechQueue\<close>: the record \<open>speech\<close> (queue contents, \<open>is_speaking\<close>, the worker's
    control point \<open>worker_pc\<close>, the utterances completed, \<open>unfinished_tasks\<close>, whether the
    window closed and whether the interpreter still runs); one operation per atomic piece of
    code (\<open>speak\<close>, \<open>on_closing\<close>, \<open>worker_get\<close>, \<open>worker_play\<close>, \<open>worker_fail\<close>,
    \<open>process_exit\<close>); the scheduler's choice of the next piece is a \<open>speech_event\<close>,
    \<open>speech_step\<close> runs one and \<open>speech_run\<close> a sequence; \<open>speech_reach\<close> is the inductive
    set of reachable states.  The worker alone is also the loop \<open>speech_worker\<close>.
    Results: FIFO order with nothing lost or duplicated under every interleaving (C7),
    progress of the worker (C15), the loop returns exactly when the sentinel is queued (C16)
    and agrees with the step model (C17), \<open>task_done\<close> never raises (C18), the bounds of
    \<open>unfinished_tasks\<close> (C19), the sentinel only after close (C20), single flight (C21),
    the stop semantics, which hold only when the worker outlives the window (C22,
    with \<open>exit_loses_queued\<close> a run where it does not), and the departure from the spec's
    failure semantics (C32).
  \<^item> \<open>Shell\<close>: the record \<open>shell\<close> (chat box text, entry text, speech state),
    \<open>display_text\<close>, \<open>ask_question\<close>, \<open>listen\<close> (the body of \<open>_listen\<close> as one step, its
    external results as \<open>listen_outcome\<close>), the window as built (\<open>init_shell\<close>) and the
    microphone menu (\<open>mic_menu\<close>, \<open>mic_device\<close>).  Results: C25--C28; C27 shows the
    voice adapter answers a blank transcript, which the text adapter ignores.
  \<^item> \<open>VoiceThreads\<close>: the window with one program counter per capture thread
    (\<open>app\<close>), the capture thread split at its interleaving points, and runs of typed
    questions and captures (\<open>app_run\<close>).  Results: a thread alone shows and queues
    \<open>get_response\<close>'s answer (C24), and no answer is lost or duplicated across threads
    (C23); only the order can change, as the run \<open>voice_answers_spoken_out_of_order\<close>
    shows.
  \<^item> This theory: a session of typed questions, \<open>ask_all\<close>, and the end-to-end result
    (C8): answers are shown and spoken in the order asked.

  \<^bold>\<open>Interleaving and termination.\<close>  Threads are modelled by the explicit sequence of
  scheduler events, so every interleaving is a list; an event that cannot happen makes
  the run \<open>None\<close>.  Every loop of the module and of \<open>difflib\<close> that must end is a
  structural \<open>fun\<close> or a \<open>function\<close> with a measure (\<open>ext_left\<close>, \<open>ext_right\<close>,
  \<open>mb_loop\<close>, \<open>py_split_go\<close>), so no fuel is needed.  The worker's \<open>while True\<close> need
  not end: as a loop it is the \<open>partial_function (option)\<close> \<open>speech_worker\<close>, whose
  \<open>None\<close> is the worker blocked in \<open>get()\<close> for ever, with its termination proved as an
  equivalence (C16); inside the thread model its progress is the existence of the run
  \<open>drain_events\<close> that plays the queue (C15).

  \<^bold>\<open>Not modelled.\<close>  Opening and reading files (the loaders start from the text read);
  the window's titles, sizes, fonts and packing (lines 146--164), which change no content
  the program reads or shows; the pyttsx3 and speech_recognition libraries and their set-up
  (lines 71--73, 167), whose effects are the list of completed utterances and
  \<open>listen_outcome\<close>; and the bytecode-level interleaving inside one step (a typed
  question and each part of a capture thread are atomic steps).
\<close>

section \<open>A session at the window\<close>

text \<open>The Tk main loop dispatching a sequence of typed questions: for each, the text is
  in the entry and Return or the Ask button calls \<open>ask_question\<close> (lines 155 and 160).
  \<open>exchange\<close> is what one answered question adds to the chat box.\<close>

fun ask_all :: "kb \<Rightarrow> string list \<Rightarrow> shell \<Rightarrow> shell" where
  "ask_all kb [] st = st"
| "ask_all kb (q # qs) st = ask_all kb qs (ask_question kb (st\<lparr>entry := q\<rparr>))"

fun exchange :: "string \<Rightarrow> string \<Rightarrow> string" where
  "exchange q r = ''You: '' @ q @ ''\<newline>\<newline>'' @ ''AI:\<newline>'' @ r @ ''\<newline>\<newline>''"

subsection \<open>Across the components\<close>

lemma ask_all_session:
  "\<forall>q \<in> set qs. py_strip q \<noteq> [] \<Longrightarrow> speech_inv (tts st) \<Longrightarrow> alive (tts st) \<Longrightarrow>
   \<exists>rs. list_all2 (\<lambda>q r. get_response kb q = Inr r) qs rs \<and>
        chat (ask_all kb qs st) = chat st @ concat (map2 exchange qs rs) \<and>
        queue (tts (ask_all kb qs st)) = queue (tts st) @ map Some rs \<and>
        speech_inv (tts (ask_all kb qs st)) \<and> alive (tts (ask_all kb qs st)) \<and>
        worker (tts (ask_all kb qs st)) = worker (tts st) \<and> played (tts (ask_all kb qs st)) = played (tts st)"
proof (induction qs arbitrary: st)
  case (Cons q qs)
  define r where "r = projr (get_response kb q)"
  have gr: "get_response kb (entry (st\<lparr>entry := q\<rparr>)) = Inr r"
    using get_response_projr [of kb q] by (simp add: r_def)
  have nb: "py_strip (entry (st\<lparr>entry := q\<rparr>)) \<noteq> []" using Cons.prems(1) by simp
  let ?st1 = "ask_question kb (st\<lparr>entry := q\<rparr>)"
  have st1: "?st1 = \<lparr>chat = chat st @ exchange q r, entry = [], tts = speak r (tts st)\<rparr>"
    using nb gr by (simp add: ask_question_eq)
  have inv1: "speech_inv (tts ?st1)" "alive (tts ?st1)"
    using st1 speak_inv [OF Cons.prems(2,3)] Cons.prems(3) by simp_all
  obtain rs where "list_all2 (\<lambda>q r. get_response kb q = Inr r) qs rs"
      "chat (ask_all kb qs ?st1) = chat ?st1 @ concat (map2 exchange qs rs)"
      "queue (tts (ask_all kb qs ?st1)) = queue (tts ?st1) @ map Some rs"
      "speech_inv (tts (ask_all kb qs ?st1))" "alive (tts (ask_all kb qs ?st1))"
      "worker (tts (ask_all kb qs ?st1)) = worker (tts ?st1)"
      "played (tts (ask_all kb qs ?st1)) = played (tts ?st1)"
    using Cons.IH [OF _ inv1] Cons.prems(1) by auto
  then show ?case using gr st1 by (intro exI [of _ "r # rs"]) auto
qed simp

text \<open>C8: End to end: every non-blank question typed into a fresh window is answered by
  \<open>get_response\<close>; the chat box shows the questions and answers in order; and, once the
  speech worker has run, exactly those answers have been spoken, in the same order.\<close>

theorem spoken_answers_in_order:
  assumes "\<forall>q \<in> set qs. py_strip q \<noteq> []"
  shows "\<exists>rs s'. list_all2 (\<lambda>q r. get_response kb q = Inr r) qs rs \<and>
     chat (ask_all kb qs \<lparr>chat = [], entry = [], tts = init_speech\<rparr>) = concat (map2 exchange qs rs) \<and>
     speech_run (tts (ask_all kb qs \<lparr>chat = [], entry = [], tts = init_speech\<rparr>)) (drain_events (map Some rs)) = Some s' \<and>
     played s' = rs"
proof -
  let ?st = "\<lparr>chat = [], entry = [], tts = init_speech\<rparr>"
  have i: "speech_inv (tts ?st)" "alive (tts ?st)"
    using speech_inv_init by (simp_all add: init_speech_def)
  obtain rs where rs: "list_all2 (\<lambda>q r. get_response kb q = Inr r) qs rs"
      "chat (ask_all kb qs ?st) = concat (map2 exchange qs rs)"
      "queue (tts (ask_all kb qs ?st)) = map Some rs"
      "speech_inv (tts (ask_all kb qs ?st))" "alive (tts (ask_all kb qs ?st))"
      "worker (tts (ask_all kb qs ?st)) = WaitGet" "played (tts (ask_all kb qs ?st)) = []"
    using ask_all_session [OF assms i] by (auto simp: init_speech_def)
  then show ?thesis
    using drain [of "tts (ask_all kb qs ?st)"] by auto
qed

theorem spoken_answers_in_order_witness:
  "\<exists>s'. speech_run (tts (ask_all sample_kb [''I got a burn'', ''Hello'']
           \<lparr>chat = [], entry = [], tts = init_speech\<rparr>))
          (drain_events [Some ''Cool the burn under running water.'', Some ''Hi! How can I help?'']) = Some s' \<and>
        played s' = [''Cool the burn under running water.'', ''Hi! How can I help?'']"
proof -
  have h: "\<forall>q \<in> set [''I got a burn'', ''Hello'']. py_strip q \<noteq> []" by code_simp
  have r1: "get_response sample_kb ''I got a burn'' = Inr ''Cool the burn under running water.''" by code_simp
  have r2: "get_response sample_kb ''Hello'' = Inr ''Hi! How can I help?''" by code_simp
  from spoken_answers_in_order [OF h, of sample_kb] obtain rs s' where
    "list_all2 (\<lambda>q r. get_response sample_kb q = Inr r) [''I got a burn'', ''Hello''] rs"
    "speech_run (tts (ask_all sample_kb [''I got a burn'', ''Hello''] \<lparr>chat = [], entry = [], tts = init_speech\<rparr>))
       (drain_events (map Some rs)) = Some s'" "played s' = rs"
    by blast
  moreover from this(1) r1 r2 have "rs = [''Cool the burn under running water.'', ''Hi! How can I help?'']"
    by (auto simp: list_all2_Cons1)
  ultimately show ?thesis by auto
qed

end
